theory Spec2Isabelle
  imports Main "HOL-Library.Word"
begin

unbundle bit_operations_syntax

section \<open>JavaScript values used by the front end\<close>

text \<open>
  The front end of wasm-chip8 is the JavaScript of \<^verbatim>\<open>src/js\<close>: the
  \<^verbatim>\<open>chip8-emulator\<close> custom element (the frame driver and the canvas renderer), the
  \<^verbatim>\<open>Keyboard\<close> class and the \<^verbatim>\<open>Audio\<close> class. The interpreter itself
  (\<^verbatim>\<open>Emulator\<close>) is compiled from the Rust crate and is reached only through the
  calls the JavaScript makes on it.

  A JavaScript string is a sequence of UTF-16 code units; \<open>js_str\<close> turns an ASCII literal
  into one.
\<close>

type_synonym js_string = "nat list"

definition js_str :: "string \<Rightarrow> js_string" where
  "js_str cs = map of_char cs"

text \<open>
  A Number is an IEEE 754 double. The Numbers that occur here are \<^verbatim>\<open>NaN\<close>, the two
  infinities and integers: \<open>Num n\<close> is the double whose value is the integer \<open>n\<close>
  (\<^verbatim>\<open>-0\<close> and \<^verbatim>\<open>+0\<close> are both \<open>Num 0\<close>; they are equal under every operation
  used below). Not every integer is a double: \<open>round_double m\<close> is the Number for the
  mathematical integer \<open>m\<close>: the nearest double, with ties to the even significand, and
  an infinity when that reaches \<open>2 ^ 1024\<close>. Up to \<open>2 ^ 53\<close> every integer is a double; above, the
  doubles are \<open>2 ^ e\<close> apart, where \<open>e = double_exp n\<close> is the number of bits that \<open>n\<close> has
  beyond 53.
\<close>

datatype js_number = NaN | Num int | Infinity | NegInfinity

function double_exp :: "nat \<Rightarrow> nat" where
  "double_exp n = (if n < 2 ^ 53 then 0 else Suc (double_exp (n div 2)))"
  by pat_completeness auto
termination
  by (relation "measure id") auto

definition round_nat :: "nat \<Rightarrow> nat" where
  "round_nat n =
     (let e = double_exp n; q = n div 2 ^ e; r = n mod 2 ^ e;
          q' = (if 2 ^ e < 2 * r \<or> (2 * r = 2 ^ e \<and> odd q) then q + 1 else q)
      in q' * 2 ^ e)"

definition round_double :: "int \<Rightarrow> js_number" where
  "round_double m =
     (let r = round_nat (nat \<bar>m\<bar>)
      in if 2 ^ 1024 \<le> r then (if m < 0 then NegInfinity else Infinity)
         else Num (if m < 0 then - int r else int r))"

definition ToBoolean :: "js_number \<Rightarrow> bool" where
  "ToBoolean x = (case x of NaN \<Rightarrow> False | Num n \<Rightarrow> n \<noteq> 0 | _ \<Rightarrow> True)"

definition js_or :: "js_number \<Rightarrow> js_number \<Rightarrow> js_number" where
  \<comment> \<open>\<^verbatim>\<open>a || b\<close>\<close>
  "js_or a b = (if ToBoolean a then a else b)"

fun js_lt :: "js_number \<Rightarrow> js_number \<Rightarrow> bool" where
  \<comment> \<open>\<^verbatim>\<open>a < b\<close>: false as soon as one side is NaN\<close>
  "js_lt (Num x) (Num y) = (x < y)"
| "js_lt (Num x) Infinity = True"
| "js_lt NegInfinity (Num y) = True"
| "js_lt NegInfinity Infinity = True"
| "js_lt _ _ = False"

fun js_inc :: "js_number \<Rightarrow> js_number" where
  \<comment> \<open>the new value of \<^verbatim>\<open>i\<close> after \<^verbatim>\<open>i++\<close>: the double nearest to \<^verbatim>\<open>i + 1\<close>\<close>
  "js_inc (Num i) = round_double (i + 1)"
| "js_inc x = x"

subsection \<open>parseInt with radix 10\<close>

text \<open>
  \<^verbatim>\<open>parseInt(string, 10)\<close> as ECMAScript defines it: leading white space is trimmed, one
  sign is read, the longest prefix of decimal digits is taken, and an empty prefix gives
  \<^verbatim>\<open>NaN\<close>; otherwise the result is the Number for the signed value of the digits. With
  radix 10 no \<^verbatim>\<open>0x\<close> prefix is stripped. An implementation may replace every
  significant digit after the 20th by 0 before it takes the value; \<open>approximates\<close> says
  whether it does.
\<close>

definition StrWhiteSpaceChar :: "nat \<Rightarrow> bool" where
  "StrWhiteSpaceChar c =
     (c \<in> {0x9, 0xA, 0xB, 0xC, 0xD, 0x20, 0xA0, 0x1680, 0x2028, 0x2029, 0x202F, 0x205F,
            0x3000, 0xFEFF}
      \<or> (0x2000 \<le> c \<and> c \<le> 0x200A))"

definition is_digit10 :: "nat \<Rightarrow> bool" where
  "is_digit10 c = (0x30 \<le> c \<and> c \<le> 0x39)"

definition digits_value :: "nat list \<Rightarrow> int" where
  "digits_value ds = foldl (\<lambda>acc c. 10 * acc + (int c - 0x30)) 0 ds"

definition significant20 :: "nat list \<Rightarrow> nat list" where
  "significant20 Z =
     (let zeros = takeWhile (\<lambda>c. c = 0x30) Z; ds = dropWhile (\<lambda>c. c = 0x30) Z
      in zeros @ take 20 ds @ replicate (length ds - 20) 0x30)"

definition parseInt10 :: "bool \<Rightarrow> js_string \<Rightarrow> js_number" where
  "parseInt10 approximates inputString =
     (let S = dropWhile StrWhiteSpaceChar inputString;
          sign = (if S \<noteq> [] \<and> hd S = 0x2D then - 1 else 1);
          S' = (if S \<noteq> [] \<and> (hd S = 0x2B \<or> hd S = 0x2D) then tl S else S);
          Z = takeWhile is_digit10 S';
          mathInt = digits_value (if approximates then significant20 Z else Z)
      in if Z = [] then NaN else round_double (sign * mathInt))"

text \<open>
  \<^verbatim>\<open>getAttribute\<close> returns \<^verbatim>\<open>null\<close> for an absent attribute, and
  \<^verbatim>\<open>parseInt\<close> applies ToString to its argument first.
\<close>

definition ToString_attr :: "js_string option \<Rightarrow> js_string" where
  "ToString_attr a = (case a of None \<Rightarrow> js_str ''null'' | Some s \<Rightarrow> s)"

section \<open>The Audio class\<close>

text \<open>
  \<^verbatim>\<open>this.o\<close> is the oscillator node that is sounding, or \<^verbatim>\<open>null\<close>. Nodes are named
  by the order in which the audio context created them; \<open>audio_log\<close> records what the class
  asks of the context and of its nodes.
\<close>

datatype audio_op =
    CreateOscillator nat
  | SetType nat string
  | Connect nat
  | OscStart nat
  | OscStop nat

record audio =
  audio_o :: "nat option"
  audio_created :: nat
  audio_log :: "audio_op list"

definition Audio_new :: audio where
  "Audio_new = \<lparr>audio_o = None, audio_created = 0, audio_log = []\<rparr>"

definition is_active :: "audio \<Rightarrow> bool" where
  \<comment> \<open>\<^verbatim>\<open>Boolean(this.o)\<close>: a node is truthy, \<^verbatim>\<open>null\<close> is not\<close>
  "is_active a = (case audio_o a of None \<Rightarrow> False | Some _ \<Rightarrow> True)"

definition audio_start :: "audio \<Rightarrow> audio" where
  "audio_start a =
     (if \<not> is_active a then
        (let n = audio_created a
         in a\<lparr>audio_o := Some n,
              audio_created := Suc n,
              audio_log := audio_log a @
                [CreateOscillator n, SetType n ''sine'', Connect n, OscStart n]\<rparr>)
      else a)"

definition audio_stop :: "audio \<Rightarrow> audio" where
  "audio_stop a =
     (if is_active a then
        (case audio_o a of
           Some n \<Rightarrow> a\<lparr>audio_o := None, audio_log := audio_log a @ [OscStop n]\<rparr>
         | None \<Rightarrow> a)
      else a)"

datatype audio_call = AStart | AStop

fun audio_step :: "audio \<Rightarrow> audio_call \<Rightarrow> audio" where
  "audio_step a AStart = audio_start a"
| "audio_step a AStop = audio_stop a"

definition audio_run :: "audio_call list \<Rightarrow> audio \<Rightarrow> audio" where
  "audio_run cs a = foldl audio_step a cs"

section \<open>The Keyboard class\<close>

text \<open>
  \<^verbatim>\<open>KEYS_MAP\<close> maps a physical \<^verbatim>\<open>keyCode\<close> to a logical key. A lookup of a code
  that is not a property of the object gives \<^verbatim>\<open>undefined\<close>, here \<open>None\<close>.
\<close>

definition KEYS_MAP :: "nat \<rightharpoonup> nat" where
  "KEYS_MAP = map_of
     [(49, 1), (50, 2), (51, 3), (81, 4), (87, 5), (69, 6), (65, 7), (83, 8), (68, 9),
      (90, 10), (67, 11), (52, 12), (82, 13), (70, 14), (86, 15)]"

text \<open>
  \<^verbatim>\<open>this.pressed\<close> is an object used as a table. Its property names are the results of
  \<^verbatim>\<open>KEYS_MAP[e.keyCode]\<close>: a number \<open>Some k\<close>, or \<^verbatim>\<open>undefined\<close> (\<open>None\<close>), which
  JavaScript also accepts as a property name.
\<close>

record keyboard =
  pressed :: "nat option \<rightharpoonup> bool"

definition start_detection :: "keyboard \<Rightarrow> keyboard" where
  "start_detection kb = kb\<lparr>pressed := Map.empty\<rparr>"

definition handle_keydown :: "nat \<Rightarrow> keyboard \<Rightarrow> keyboard" where
  "handle_keydown keyCode kb = kb\<lparr>pressed := (pressed kb)(KEYS_MAP keyCode \<mapsto> True)\<rparr>"

definition handle_keyup :: "nat \<Rightarrow> keyboard \<Rightarrow> keyboard" where
  "handle_keyup keyCode kb = kb\<lparr>pressed := (pressed kb)(KEYS_MAP keyCode \<mapsto> False)\<rparr>"

definition is_key_pressed :: "keyboard \<Rightarrow> nat option \<Rightarrow> bool" where
  \<comment> \<open>\<^verbatim>\<open>Boolean(this.pressed[key])\<close>: a missing property is \<^verbatim>\<open>undefined\<close>, which is falsy\<close>
  "is_key_pressed kb key = (case pressed kb key of None \<Rightarrow> False | Some b \<Rightarrow> b)"

datatype key_event = Keydown nat | Keyup nat

fun keyCode :: "key_event \<Rightarrow> nat" where
  "keyCode (Keydown c) = c"
| "keyCode (Keyup c) = c"

fun is_keydown :: "key_event \<Rightarrow> bool" where
  "is_keydown (Keydown _) = True"
| "is_keydown (Keyup _) = False"

fun keyboard_event :: "keyboard \<Rightarrow> key_event \<Rightarrow> keyboard" where
  "keyboard_event kb (Keydown c) = handle_keydown c kb"
| "keyboard_event kb (Keyup c) = handle_keyup c kb"

definition keyboard_run :: "key_event list \<Rightarrow> keyboard \<Rightarrow> keyboard" where
  "keyboard_run evs kb = foldl keyboard_event (start_detection kb) evs"

definition last_event_for :: "nat \<Rightarrow> key_event list \<Rightarrow> key_event option" where
  \<comment> \<open>the most recent event of \<open>evs\<close> whose key code maps to the logical key \<open>k\<close>\<close>
  "last_event_for k evs = List.find (\<lambda>e. KEYS_MAP (keyCode e) = Some k) (rev evs)"

section \<open>The interpreter as the front end sees it\<close>

text \<open>
  Modelled from the spec: the public operations of the interpreter (section 6 of the
  specification). The \<^verbatim>\<open>Emulator\<close> class is generated from the Rust crate, which is not
  among the sources; the JavaScript names the framebuffer read \<^verbatim>\<open>gfx\<close>. An
  \<open>emu_call\<close> is one call made on the interpreter; the driver's state keeps them in order.
\<close>

datatype emu_call =
    New
  | Load "8 word list"
  | Reset
  | Tick
  | Gfx
  | SetKey nat bool
  | DelayTimer
  | SoundTimer
  | DecrementTimers

text \<open>
  What the calls do is a parameter: \<open>'e\<close> is the state of the WebAssembly instance (its
  linear memory, which holds the interpreter). \<^verbatim>\<open>gfx()\<close> returns an address into
  \<^verbatim>\<open>memory.buffer\<close>. The calls are taken to return normally.
\<close>

record 'e emulator_class =
  emu_new :: 'e
  emu_tick :: "'e \<Rightarrow> 'e"
  emu_gfx :: "'e \<Rightarrow> nat"
  emu_reset :: "'e \<Rightarrow> 'e"
  emu_load :: "8 word list \<Rightarrow> 'e \<Rightarrow> 'e"
  memory_buffer :: "'e \<Rightarrow> 8 word list"

section \<open>The chip8-emulator element\<close>

definition WIDTH :: nat where "WIDTH = 64"
definition HEIGHT :: nat where "HEIGHT = 32"
definition SCALE :: nat where "SCALE = 10"
definition EMPTY_COLOR :: string where "EMPTY_COLOR = ''#0A84A0''"
definition FILL_COLOR :: string where "FILL_COLOR = ''#ffffff''"

definition getIndex :: "nat \<Rightarrow> nat \<Rightarrow> nat" where
  "getIndex row col = row * WIDTH + col"

subsection \<open>The canvas\<close>

text \<open>
  The 2D context keeps the current \<^verbatim>\<open>fillStyle\<close>; \<open>ops\<close> lists what was drawn, oldest
  first. A \<open>FillRect\<close> carries the colour that was current when it was painted.
\<close>

datatype canvas_op =
    BeginPath
  | FillRect string nat nat nat nat
  | Stroke
  | ClearRect nat nat nat nat

record canvas_ctx =
  fillStyle :: string
  ops :: "canvas_op list"

definition beginPath :: "canvas_ctx \<Rightarrow> canvas_ctx" where
  "beginPath c = c\<lparr>ops := ops c @ [BeginPath]\<rparr>"

definition fillRect :: "nat \<Rightarrow> nat \<Rightarrow> nat \<Rightarrow> nat \<Rightarrow> canvas_ctx \<Rightarrow> canvas_ctx" where
  "fillRect x y w h c = c\<lparr>ops := ops c @ [FillRect (fillStyle c) x y w h]\<rparr>"

definition stroke :: "canvas_ctx \<Rightarrow> canvas_ctx" where
  "stroke c = c\<lparr>ops := ops c @ [Stroke]\<rparr>"

definition clearRect :: "nat \<Rightarrow> nat \<Rightarrow> nat \<Rightarrow> nat \<Rightarrow> canvas_ctx \<Rightarrow> canvas_ctx" where
  "clearRect x y w h c = c\<lparr>ops := ops c @ [ClearRect x y w h]\<rparr>"

definition canvas_height :: nat where
  "canvas_height = (SCALE + 1) * HEIGHT + 1"

definition canvas_width :: nat where
  "canvas_width = (SCALE + 1) * WIDTH + 1"

subsection \<open>Typed-array views\<close>

text \<open>
  \<^verbatim>\<open>new Uint8Array(buffer, byteOffset, length)\<close> throws a RangeError when the view does
  not fit in the buffer. The view aliases the buffer; the renderer reads it before anything
  else runs, so it sees these bytes. Reading an index outside the view gives
  \<^verbatim>\<open>undefined\<close>.
\<close>

datatype js_error = RangeError | TypeError

datatype 'a completion = Normal 'a | Throw js_error 'a

fun state_of :: "'a completion \<Rightarrow> 'a" where
  "state_of (Normal s) = s"
| "state_of (Throw e s) = s"

definition Uint8Array :: "8 word list \<Rightarrow> nat \<Rightarrow> nat \<Rightarrow> js_error + 8 word list" where
  "Uint8Array buffer byteOffset len =
     (if byteOffset + len \<le> length buffer then Inr (take len (drop byteOffset buffer))
      else Inl RangeError)"

definition typed_get :: "8 word list \<Rightarrow> nat \<Rightarrow> 8 word option" where
  "typed_get a i = (if i < length a then Some (a ! i) else None)"

definition truthy :: "8 word option \<Rightarrow> bool" where
  "truthy v = (case v of None \<Rightarrow> False | Some b \<Rightarrow> b \<noteq> 0)"

subsection \<open>State of the element\<close>

text \<open>
  The attributes \<^verbatim>\<open>started\<close> and \<^verbatim>\<open>ticks-per-frame\<close> are strings, or absent. The
  browser's part is kept as data: \<open>raf_pending\<close> are the animation-frame requests that have
  not run or been cancelled (\<open>raf_counter\<close> is the last handle given out), and \<open>readers\<close>
  are the files that a FileReader created by \<^verbatim>\<open>uploadProgram\<close> is still reading.
  \<open>parseInt_approximates\<close> is the choice the browser's \<^verbatim>\<open>parseInt\<close> makes for long
  digit strings.
\<close>

record 'e chip8_emulator =
  attr_started :: "js_string option"
  attr_ticks_per_frame :: "js_string option"
  programLoaded :: bool
  animationId :: "nat option"
  emulator :: 'e
  calls :: "emu_call list"
  ctx :: canvas_ctx
  raf_counter :: nat
  raf_pending :: "nat list"
  readers :: "8 word list list"
  parseInt_approximates :: bool

definition chip8_new ::
  "'e emulator_class \<Rightarrow> bool \<Rightarrow> js_string option \<Rightarrow> js_string option \<Rightarrow>
     'e chip8_emulator" where
  "chip8_new api approximates a_started a_ticks =
     \<lparr>attr_started = a_started, attr_ticks_per_frame = a_ticks, programLoaded = False,
      animationId = None, emulator = emu_new api, calls = [New],
      ctx = \<lparr>fillStyle = ''#000000'', ops = []\<rparr>,
      raf_counter = 0, raf_pending = [], readers = [],
      parseInt_approximates = approximates\<rparr>"

definition started :: "'e chip8_emulator \<Rightarrow> bool" where
  \<comment> \<open>\<^verbatim>\<open>this.getAttribute('started') === 'true' || false\<close>\<close>
  "started s = (attr_started s = Some (js_str ''true'') \<or> False)"

definition set_started :: "bool \<Rightarrow> 'e chip8_emulator \<Rightarrow> 'e chip8_emulator" where
  \<comment> \<open>\<^verbatim>\<open>setAttribute\<close> stores the string of the value\<close>
  "set_started v s = s\<lparr>attr_started := Some (js_str (if v then ''true'' else ''false''))\<rparr>"

definition ticksPerFrame :: "'e chip8_emulator \<Rightarrow> js_number" where
  "ticksPerFrame s =
     js_or (parseInt10 (parseInt_approximates s) (ToString_attr (attr_ticks_per_frame s)))
       (Num 10)"

subsection \<open>Rendering\<close>

definition renderCellsByCond ::
  "8 word list \<Rightarrow> string \<Rightarrow> (nat \<Rightarrow> nat \<Rightarrow> bool) \<Rightarrow> canvas_ctx \<Rightarrow> canvas_ctx" where
  "renderCellsByCond gfx style conditionCallback c =
     fold (\<lambda>row. fold (\<lambda>col c'.
             if conditionCallback row col then c'
             else fillRect (col * (SCALE + 1) + 1) (row * (SCALE + 1) + 1) SCALE SCALE c')
           [0..<WIDTH])
       [0..<HEIGHT] (c\<lparr>fillStyle := style\<rparr>)"

definition renderFilledCells :: "8 word list \<Rightarrow> canvas_ctx \<Rightarrow> canvas_ctx" where
  "renderFilledCells gfx c =
     renderCellsByCond gfx FILL_COLOR
       (\<lambda>row col. \<not> truthy (typed_get gfx (getIndex row col))) c"

definition renderEmptyCells :: "8 word list \<Rightarrow> canvas_ctx \<Rightarrow> canvas_ctx" where
  "renderEmptyCells gfx c =
     renderCellsByCond gfx EMPTY_COLOR
       (\<lambda>row col. truthy (typed_get gfx (getIndex row col))) c"

definition gfx_view :: "'e emulator_class \<Rightarrow> 'e \<Rightarrow> js_error + 8 word list" where
  \<comment> \<open>\<^verbatim>\<open>new Uint8Array(memory.buffer, this._emulator.gfx(), WIDTH * HEIGHT)\<close>\<close>
  "gfx_view api e = Uint8Array (memory_buffer api e) (emu_gfx api e) (WIDTH * HEIGHT)"

definition renderGfx ::
  "'e emulator_class \<Rightarrow> 'e chip8_emulator \<Rightarrow> 'e chip8_emulator completion" where
  "renderGfx api s =
     (let s1 = s\<lparr>calls := calls s @ [Gfx]\<rparr>
      in case gfx_view api (emulator s) of
           Inl err \<Rightarrow> Throw err s1
         | Inr gfx \<Rightarrow>
             Normal (s1\<lparr>ctx := stroke (renderEmptyCells gfx (renderFilledCells gfx
                                (beginPath (ctx s1))))\<rparr>))"

subsection \<open>The frame loop\<close>

text \<open>
  \<^verbatim>\<open>for (let i = 0; i < this.ticksPerFrame; i++) this._emulator.tick()\<close>: the getter is
  read again before every iteration, and the counter is a Number. The loop need not end
  (the counter stops growing at \<open>2 ^ 53\<close>); \<open>None\<close> is the run that never returns.
\<close>

partial_function (option) tick_loop ::
  "'e emulator_class \<Rightarrow> js_number \<Rightarrow> 'e chip8_emulator \<Rightarrow> 'e chip8_emulator option" where
  "tick_loop api i s =
     (if js_lt i (ticksPerFrame s)
      then tick_loop api (js_inc i)
             (s\<lparr>emulator := emu_tick api (emulator s), calls := calls s @ [Tick]\<rparr>)
      else Some s)"

text \<open>
  \<open>unbounded s\<close>: the bound that the loop reads in \<open>s\<close> is one the counter cannot
  reach. \<open>frame_ticks s\<close>: the number of iterations the loop makes when it can.
\<close>

definition unbounded :: "'e chip8_emulator \<Rightarrow> bool" where
  "unbounded s =
     (ticksPerFrame s = Infinity \<or> (\<exists>n. ticksPerFrame s = Num n \<and> 2 ^ 53 < n))"

definition frame_ticks :: "'e chip8_emulator \<Rightarrow> nat" where
  "frame_ticks s = (case ticksPerFrame s of Num n \<Rightarrow> nat n | _ \<Rightarrow> 0)"

definition requestAnimationFrame :: "'e chip8_emulator \<Rightarrow> nat \<times> 'e chip8_emulator" where
  "requestAnimationFrame s =
     (let h = Suc (raf_counter s)
      in (h, s\<lparr>raf_counter := h, raf_pending := raf_pending s @ [h]\<rparr>))"

definition cancelAnimationFrame :: "nat option \<Rightarrow> 'e chip8_emulator \<Rightarrow> 'e chip8_emulator" where
  "cancelAnimationFrame h s = s\<lparr>raf_pending := filter (\<lambda>r. Some r \<noteq> h) (raf_pending s)\<rparr>"

definition loop ::
  "'e emulator_class \<Rightarrow> 'e chip8_emulator \<Rightarrow> 'e chip8_emulator completion option" where
  "loop api s =
     (case tick_loop api (Num 0) s of
        None \<Rightarrow> None
      | Some s1 \<Rightarrow>
          Some (case renderGfx api s1 of
                  Throw err s' \<Rightarrow> Throw err s'
                | Normal s' \<Rightarrow>
                    (let (h, s'') = requestAnimationFrame s'
                     in Normal (s''\<lparr>animationId := Some h\<rparr>))))"

definition start ::
  "'e emulator_class \<Rightarrow> 'e chip8_emulator \<Rightarrow> 'e chip8_emulator completion option" where
  "start api s =
     (if \<not> started s \<or> programLoaded s then
        (case loop api s of
           None \<Rightarrow> None
         | Some (Throw err s') \<Rightarrow> Some (Throw err s')
         | Some (Normal s') \<Rightarrow> Some (Normal (set_started True s')))
      else Some (Normal s))"

definition pause :: "'e chip8_emulator \<Rightarrow> 'e chip8_emulator" where
  "pause s =
     (if started s then
        set_started False ((cancelAnimationFrame (animationId s) s)\<lparr>animationId := None\<rparr>)
      else s)"

definition toggle ::
  "'e emulator_class \<Rightarrow> 'e chip8_emulator \<Rightarrow> 'e chip8_emulator completion option" where
  "toggle api s = (if started s then Some (Normal (pause s)) else start api s)"

subsection \<open>Uploading a program\<close>

text \<open>
  \<^verbatim>\<open>evt.detail\<close> is the first selected file, or \<^verbatim>\<open>undefined\<close> when the selection is
  empty; \<^verbatim>\<open>readAsArrayBuffer(undefined)\<close> throws a TypeError. A file is its bytes. The
  reader's \<^verbatim>\<open>onload\<close> runs later, when the read has succeeded, with the file's bytes as
  \<^verbatim>\<open>e.target.result\<close>; \<^verbatim>\<open>new Uint8Array(buffer)\<close> is a view of the whole buffer.
\<close>

definition uploadProgram ::
  "'e emulator_class \<Rightarrow> 8 word list option \<Rightarrow> 'e chip8_emulator \<Rightarrow>
     'e chip8_emulator completion" where
  "uploadProgram api detail s =
     (let s1 = s\<lparr>emulator := emu_reset api (emulator s), calls := calls s @ [Reset]\<rparr>;
          s2 = s1\<lparr>ctx := clearRect 0 0 canvas_width canvas_height (ctx s1)\<rparr>;
          s3 = pause s2
      in case detail of
           None \<Rightarrow> Throw TypeError s3
         | Some file \<Rightarrow> Normal (s3\<lparr>readers := readers s3 @ [file]\<rparr>))"

definition reader_onload ::
  "'e emulator_class \<Rightarrow> 8 word list \<Rightarrow> 'e chip8_emulator \<Rightarrow> 'e chip8_emulator" where
  "reader_onload api result s =
     (let program = result
      in s\<lparr>emulator := emu_load api program (emulator s),
           calls := calls s @ [Load program],
           programLoaded := True\<rparr>)"

subsection \<open>The page: which listener runs on which event\<close>

text \<open>
  The Keyboard listens to \<^verbatim>\<open>keydown\<close> and \<^verbatim>\<open>keyup\<close> on the document. The element
  listens to the click on its start button and to \<^verbatim>\<open>file-selected\<close> from its upload
  button; the browser runs a pending animation-frame callback and a reader's
  \<^verbatim>\<open>onload\<close>. An exception that leaves a listener is reported by the browser and the
  state stays as the listener left it. A read that fails ends without a call: the reader
  has no \<^verbatim>\<open>onerror\<close> listener. A listener that never returns leaves no state behind:
  the result is \<open>None\<close>, and nothing runs on the page after it.
\<close>

datatype dom_event =
    KeyEvent key_event
  | StartClick
  | FileSelected "8 word list option"
  | ReaderLoad nat
  | ReaderError nat
  | AnimationFrame nat

record 'e page =
  kbd :: keyboard
  element :: "'e chip8_emulator"

definition drop_nth :: "nat \<Rightarrow> 'a list \<Rightarrow> 'a list" where
  "drop_nth i xs = take i xs @ drop (Suc i) xs"

fun element_event ::
  "'e emulator_class \<Rightarrow> dom_event \<Rightarrow> 'e chip8_emulator \<Rightarrow> 'e chip8_emulator option" where
  "element_event api (KeyEvent e) s = Some s"
| "element_event api StartClick s = map_option state_of (toggle api s)"
| "element_event api (FileSelected detail) s = Some (state_of (uploadProgram api detail s))"
| "element_event api (ReaderLoad i) s =
     (if i < length (readers s)
      then Some (reader_onload api (readers s ! i) (s\<lparr>readers := drop_nth i (readers s)\<rparr>))
      else Some s)"
| "element_event api (ReaderError i) s = Some (s\<lparr>readers := drop_nth i (readers s)\<rparr>)"
| "element_event api (AnimationFrame h) s =
     (if h \<in> set (raf_pending s)
      then map_option state_of (loop api (s\<lparr>raf_pending := removeAll h (raf_pending s)\<rparr>))
      else Some s)"

fun dispatch :: "'e emulator_class \<Rightarrow> dom_event \<Rightarrow> 'e page \<Rightarrow> 'e page option" where
  "dispatch api (KeyEvent e) pg = Some (pg\<lparr>kbd := keyboard_event (kbd pg) e\<rparr>)"
| "dispatch api ev pg =
     map_option (\<lambda>s. pg\<lparr>element := s\<rparr>) (element_event api ev (element pg))"

subsection \<open>What a render paints\<close>

text \<open>
  \<open>cell_paints style cond\<close> are the rectangles that one pass of
  \<^verbatim>\<open>renderCellsByCond\<close> paints, in order. \<open>in_cell row col x y\<close> says that the canvas
  pixel \<open>(x, y)\<close> lies in the square of the cell \<open>(row, col)\<close>, and \<open>paints_pixel x y op\<close>
  that the drawing operation \<open>op\<close> paints that pixel.
\<close>

definition cell_paints :: "string \<Rightarrow> (nat \<Rightarrow> nat \<Rightarrow> bool) \<Rightarrow> canvas_op list" where
  "cell_paints style cond =
     concat (map (\<lambda>row. concat (map (\<lambda>col.
         if cond row col then []
         else [FillRect style (col * (SCALE + 1) + 1) (row * (SCALE + 1) + 1) SCALE SCALE])
       [0..<WIDTH])) [0..<HEIGHT])"

definition in_cell :: "nat \<Rightarrow> nat \<Rightarrow> nat \<Rightarrow> nat \<Rightarrow> bool" where
  "in_cell row col x y =
     (col * (SCALE + 1) + 1 \<le> x \<and> x < col * (SCALE + 1) + 1 + SCALE
      \<and> row * (SCALE + 1) + 1 \<le> y \<and> y < row * (SCALE + 1) + 1 + SCALE)"

definition paints_pixel :: "nat \<Rightarrow> nat \<Rightarrow> canvas_op \<Rightarrow> bool" where
  "paints_pixel x y op =
     (case op of
        FillRect _ x0 y0 w h \<Rightarrow> x0 \<le> x \<and> x < x0 + w \<and> y0 \<le> y \<and> y < y0 + h
      | _ \<Rightarrow> False)"

definition minus_signed :: "js_string \<Rightarrow> bool" where
  \<comment> \<open>the text, after its leading white space, starts with a minus sign\<close>
  "minus_signed str = (let S = dropWhile StrWhiteSpaceChar str in S \<noteq> [] \<and> hd S = 0x2D)"

section \<open>The framebuffer behind the view\<close>

text \<open>
  Modelled from the spec: the Framebuffer component (sections 3, 4.2 and 4.3 of the
  specification), whose Rust implementation is not among the sources. It is a grid of
  64 by 32 pixels, one byte per pixel, index = row * 64 + col. It is zeroed when the
  interpreter is created, reset or loaded and by \<^verbatim>\<open>CLS\<close>; otherwise only
  \<^verbatim>\<open>DRW\<close> changes it: each sprite byte is a row of eight pixels, most significant bit
  leftmost, XORed onto the grid with both coordinates wrapping around, and the collision
  flag is raised when a set pixel is unset.
\<close>

definition CLS :: "8 word list" where
  "CLS = replicate (WIDTH * HEIGHT) 0"

definition sprite_bit :: "8 word \<Rightarrow> nat \<Rightarrow> 8 word" where
  "sprite_bit byte j = of_bool (bit byte (7 - j))"

definition xor_pixel :: "nat \<Rightarrow> nat \<Rightarrow> 8 word \<Rightarrow> 8 word list \<times> bool \<Rightarrow> 8 word list \<times> bool" where
  "xor_pixel row col b st =
     (let fb = fst st;
          i = getIndex (row mod HEIGHT) (col mod WIDTH);
          old = fb ! i
      in (fb[i := old XOR b], snd st \<or> (old = 1 \<and> b = 1)))"

definition DRW_row :: "nat \<Rightarrow> nat \<Rightarrow> 8 word \<Rightarrow> 8 word list \<times> bool \<Rightarrow> 8 word list \<times> bool" where
  "DRW_row vx row byte st = fold (\<lambda>j. xor_pixel row (vx + j) (sprite_bit byte j)) [0..<8] st"

definition DRW :: "8 word list \<Rightarrow> nat \<Rightarrow> nat \<Rightarrow> 8 word list \<Rightarrow> 8 word list \<times> bool" where
  "DRW fb vx vy sprite =
     fold (\<lambda>(r, byte). DRW_row vx (vy + r) byte) (enumerate 0 sprite) (fb, False)"

text \<open>
  Modelled from the spec: nothing else writes the framebuffer. What the interpreter holds
  is therefore the cleared grid of its creation changed by a sequence of clears
  (\<^verbatim>\<open>CLS\<close>, reset, load) and draws.
\<close>

datatype fb_op = FbClear | FbDraw nat nat "8 word list"

fun fb_step :: "8 word list \<Rightarrow> fb_op \<Rightarrow> 8 word list" where
  "fb_step fb FbClear = CLS"
| "fb_step fb (FbDraw vx vy sprite) = fst (DRW fb vx vy sprite)"

definition framebuffer_after :: "fb_op list \<Rightarrow> 8 word list" where
  "framebuffer_after history = foldl fb_step CLS history"

definition fb_ok :: "8 word list \<Rightarrow> bool" where
  "fb_ok fb = (length fb = WIDTH * HEIGHT \<and> list_all (\<lambda>b. b = 0 \<or> b = 1) fb)"

section \<open>A stand-in interpreter\<close>

text \<open>
  An instance of the interface on which statements can be evaluated: the linear memory is
  a framebuffer of 2048 bytes at address 0, followed by the loaded program; a tick sets the
  first pixel.
\<close>

definition demo_emulator :: "8 word list emulator_class" where
  "demo_emulator =
     \<lparr>emu_new = replicate 2048 0,
      emu_tick = (\<lambda>m. m[0 := 1]),
      emu_gfx = (\<lambda>m. 0),
      emu_reset = (\<lambda>m. replicate 2048 0),
      emu_load = (\<lambda>rom m. replicate 2048 0 @ rom),
      memory_buffer = (\<lambda>m. m)\<rparr>"

definition demo_page :: "8 word list page" where
  "demo_page = \<lparr>kbd = start_detection \<lparr>pressed = Map.empty\<rparr>,
                element = chip8_new demo_emulator False None None\<rparr>"

section \<open>Audio: one tone at a time\<close>

lemma is_active_start: "is_active (audio_start a)"
  by (simp add: audio_start_def is_active_def Let_def)

lemma is_active_stop: "\<not> is_active (audio_stop a)"
  by (simp add: audio_stop_def is_active_def split: option.splits)

lemma audio_run_snoc: "audio_run (cs @ [c]) a = audio_step (audio_run cs a) c"
  by (simp add: audio_run_def)

lemma is_active_run: "is_active (audio_run cs Audio_new) = (cs \<noteq> [] \<and> last cs = AStart)"
proof (induction cs rule: rev_induct)
  case Nil
  show ?case by (simp add: audio_run_def Audio_new_def is_active_def)
next
  case (snoc c cs)
  show ?case by (cases c) (simp_all add: audio_run_snoc is_active_start is_active_stop)
qed

text \<open>
  Claim C10. After any sequence of \<^verbatim>\<open>start\<close> and \<^verbatim>\<open>stop\<close> calls on a new Audio,
  \<^verbatim>\<open>is_active()\<close> holds exactly when the sequence is not empty and its last call was
  \<^verbatim>\<open>start\<close>. A \<^verbatim>\<open>start\<close> while a tone is active changes nothing (no oscillator is
  created), a \<^verbatim>\<open>stop\<close> while none is active changes nothing, and both calls are
  idempotent.
\<close>

theorem audio_start_stop:
  "is_active (audio_run cs Audio_new) = (cs \<noteq> [] \<and> last cs = AStart)
   \<and> (is_active a \<longrightarrow> audio_start a = a)
   \<and> (\<not> is_active a \<longrightarrow> audio_stop a = a)
   \<and> audio_start (audio_start a) = audio_start a
   \<and> audio_stop (audio_stop a) = audio_stop a"
  using is_active_start [of a] is_active_stop [of a]
  by (simp add: is_active_run) (simp add: audio_start_def audio_stop_def)

theorem audio_start_stop_witness:
  "is_active (audio_start Audio_new)
   \<and> audio_start (audio_start Audio_new) = audio_start Audio_new
   \<and> audio_created (audio_start (audio_start Audio_new)) = 1
   \<and> \<not> is_active Audio_new
   \<and> audio_stop Audio_new = Audio_new
   \<and> is_active (audio_run [AStart, AStop, AStart] Audio_new)"
  using audio_start_stop [of "[AStart, AStop, AStart]" "audio_start Audio_new"]
        audio_start_stop [of "[]" Audio_new]
  by (simp add: audio_run_def audio_start_def audio_stop_def Audio_new_def is_active_def)

section \<open>Keyboard: the reported state of a key\<close>

lemma is_key_pressed_down:
  "is_key_pressed (handle_keydown c kb) key =
     (if KEYS_MAP c = key then True else is_key_pressed kb key)"
  by (simp add: is_key_pressed_def handle_keydown_def)

lemma is_key_pressed_up:
  "is_key_pressed (handle_keyup c kb) key =
     (if KEYS_MAP c = key then False else is_key_pressed kb key)"
  by (simp add: is_key_pressed_def handle_keyup_def)

lemma keyboard_run_snoc:
  "keyboard_run (evs @ [e]) kb = keyboard_event (keyboard_run evs kb) e"
  by (simp add: keyboard_run_def)

lemma pressed_last_event:
  "is_key_pressed (keyboard_run evs kb) (Some k) =
     (case last_event_for k evs of None \<Rightarrow> False | Some e \<Rightarrow> is_keydown e)"
proof (induction evs rule: rev_induct)
  case Nil
  show ?case
    by (simp add: keyboard_run_def last_event_for_def start_detection_def is_key_pressed_def)
next
  case (snoc e evs)
  then show ?case
    by (cases e)
       (simp_all add: keyboard_run_snoc last_event_for_def is_key_pressed_down
          is_key_pressed_up)
qed

lemma find_Some_in: "List.find P xs = Some x \<Longrightarrow> x \<in> set xs \<and> P x"
  by (induction xs) (auto split: if_splits)

lemma last_event_for_Some:
  "last_event_for k evs = Some e \<Longrightarrow> e \<in> set evs \<and> KEYS_MAP (keyCode e) = Some k"
  using find_Some_in [of "\<lambda>e. KEYS_MAP (keyCode e) = Some k" "rev evs" e]
  by (simp add: last_event_for_def)

lemma unmapped_event_keeps:
  "KEYS_MAP (keyCode e) = None \<Longrightarrow>
   is_key_pressed (keyboard_event kb e) (Some k) = is_key_pressed kb (Some k)"
  by (cases e) (simp_all add: is_key_pressed_down is_key_pressed_up)

text \<open>
  Claim C9. After \<^verbatim>\<open>start_detection\<close> and any sequence of keydown and keyup events,
  \<^verbatim>\<open>is_key_pressed(k)\<close> is true exactly when the most recent event whose key code maps
  to \<open>k\<close> is a keydown; so it is false as long as no keydown that maps to \<open>k\<close> has
  occurred. An event whose key code is not in the key map leaves the reported state of every
  logical key as it was.
\<close>

theorem is_key_pressed_last_event:
  "is_key_pressed (keyboard_run evs kb) (Some k) =
     (case last_event_for k evs of None \<Rightarrow> False | Some e \<Rightarrow> is_keydown e)
   \<and> ((\<forall>e \<in> set evs. \<not> (is_keydown e \<and> KEYS_MAP (keyCode e) = Some k)) \<longrightarrow>
        \<not> is_key_pressed (keyboard_run evs kb) (Some k))
   \<and> (KEYS_MAP (keyCode e) = None \<longrightarrow>
        is_key_pressed (keyboard_event kb' e) (Some k) = is_key_pressed kb' (Some k))"
proof (intro conjI impI)
  show "is_key_pressed (keyboard_run evs kb) (Some k) =
     (case last_event_for k evs of None \<Rightarrow> False | Some e \<Rightarrow> is_keydown e)"
    by (rule pressed_last_event)
next
  assume none: "\<forall>e \<in> set evs. \<not> (is_keydown e \<and> KEYS_MAP (keyCode e) = Some k)"
  show "\<not> is_key_pressed (keyboard_run evs kb) (Some k)"
  proof (cases "last_event_for k evs")
    case None
    then show ?thesis by (simp add: pressed_last_event)
  next
    case (Some e')
    with last_event_for_Some [OF Some] none have "\<not> is_keydown e'" by blast
    with Some show ?thesis by (simp add: pressed_last_event)
  qed
next
  assume "KEYS_MAP (keyCode e) = None"
  then show "is_key_pressed (keyboard_event kb' e) (Some k) = is_key_pressed kb' (Some k)"
    by (rule unmapped_event_keeps)
qed

theorem is_key_pressed_last_event_witness:
  "is_key_pressed (keyboard_run [Keydown 49, Keyup 49, Keydown 87] \<lparr>pressed = Map.empty\<rparr>) (Some 5)
   \<and> \<not> is_key_pressed (keyboard_run [Keydown 49, Keyup 49, Keydown 87] \<lparr>pressed = Map.empty\<rparr>) (Some 1)
   \<and> \<not> is_key_pressed (keyboard_run [Keyup 87, Keydown 49] \<lparr>pressed = Map.empty\<rparr>) (Some 5)
   \<and> KEYS_MAP (keyCode (Keydown 88)) = None
   \<and> is_key_pressed (keyboard_event (handle_keydown 87 \<lparr>pressed = Map.empty\<rparr>) (Keydown 88)) (Some 5)"
  using is_key_pressed_last_event
          [of "[Keydown 49, Keyup 49, Keydown 87]" "\<lparr>pressed = Map.empty\<rparr>" 5
              "Keydown 88" "handle_keydown 87 \<lparr>pressed = Map.empty\<rparr>"]
        is_key_pressed_last_event
          [of "[Keydown 49, Keyup 49, Keydown 87]" "\<lparr>pressed = Map.empty\<rparr>" 1]
        is_key_pressed_last_event
          [of "[Keyup 87, Keydown 49]" "\<lparr>pressed = Map.empty\<rparr>" 5]
  by (simp add: last_event_for_def KEYS_MAP_def is_key_pressed_down)

section \<open>Keyboard: the key map\<close>

lemma ran_KEYS_MAP: "ran KEYS_MAP = {1..15}"
  unfolding KEYS_MAP_def
  by (subst ran_distinct) (auto simp: atLeastAtMost_upt upt_conv_Cons)

text \<open>
  Claim C4. The key map translates key codes onto the logical keys 1 to 15 only: no key
  code is translated to the logical key 0, and the key code 88 (the X key, which the
  4 by 4 layout of the other fifteen entries leaves for it) is not in the map.
\<close>

theorem KEYS_MAP_misses_key_0:
  "ran KEYS_MAP = {1..15} \<and> 0 \<notin> ran KEYS_MAP \<and> KEYS_MAP 88 = None"
  by (simp add: ran_KEYS_MAP) (simp add: KEYS_MAP_def)

section \<open>Numbers: rounding to a double\<close>

declare double_exp.simps [simp del]

lemma double_exp_small: "n < 2 ^ 53 \<Longrightarrow> double_exp n = 0"
  by (simp add: double_exp.simps)

lemma round_nat_small: "n < 2 ^ 53 \<Longrightarrow> round_nat n = n"
  by (simp add: round_nat_def double_exp_small)

lemma double_exp_253: "double_exp (2 ^ 53) = 1"
  by (subst double_exp.simps) (simp add: double_exp_small)

lemma round_nat_253: "round_nat (2 ^ 53) = 2 ^ 53"
  unfolding round_nat_def double_exp_253 by (simp add: Let_def)

lemma round_nat_exact: "n \<le> 2 ^ 53 \<Longrightarrow> round_nat n = n"
  using round_nat_small [of n] round_nat_253 by (cases "n = 2 ^ 53") auto

lemma round_double_exact: "0 \<le> m \<Longrightarrow> m \<le> 2 ^ 53 \<Longrightarrow> round_double m = Num m"
proof -
  assume a: "0 \<le> m" "m \<le> 2 ^ 53"
  then have le: "nat \<bar>m\<bar> \<le> 2 ^ 53"
    by (simp add: nat_le_iff)
  have "(2::nat) ^ 53 < 2 ^ 1024" by simp
  with le have "\<not> (2::nat) ^ 1024 \<le> nat \<bar>m\<bar>" by linarith
  then have big: "\<not> (2::nat) ^ 1024 \<le> nat \<bar>m\<bar>" .
  have r: "round_nat (nat \<bar>m\<bar>) = nat \<bar>m\<bar>"
    by (rule round_nat_exact [OF le])
  show ?thesis
    unfolding round_double_def r using a big by (simp add: Let_def)
qed


lemma double_exp_bounds:
  "n div 2 ^ double_exp n < 2 ^ 53 \<and> (0 < double_exp n \<longrightarrow> 2 ^ 52 \<le> n div 2 ^ double_exp n)"
proof (induction n rule: double_exp.induct)
  case (1 n)
  show ?case
  proof (cases "n < 2 ^ 53")
    case True
    then show ?thesis by (simp add: double_exp_small)
  next
    case False
    then have e: "double_exp n = Suc (double_exp (n div 2))"
      by (subst double_exp.simps) simp
    have d: "n div 2 ^ Suc (double_exp (n div 2)) = (n div 2) div 2 ^ double_exp (n div 2)"
      by (simp add: div_mult2_eq)
    from False have h: "2 ^ 52 \<le> n div 2" by simp
    from "1.IH" [OF False] h show ?thesis
      unfolding e d by (cases "double_exp (n div 2)") (auto simp: double_exp_small)
  qed
qed

lemma round_nat_ge: "n div 2 ^ double_exp n * 2 ^ double_exp n \<le> round_nat n"
  by (simp add: round_nat_def Let_def)

lemma round_nat_overflow:
  assumes "2 ^ 1024 \<le> n"
  shows "2 ^ 1024 \<le> round_nat n"
proof -
  let ?e = "double_exp n"
  let ?q = "n div 2 ^ ?e"
  have q: "?q < 2 ^ 53" using double_exp_bounds [of n] by blast
  have "n < 2 ^ ?e + ?q * 2 ^ ?e"
    by (rule dividend_less_div_times) simp
  then have "n < (?q + 1) * 2 ^ ?e" by simp
  also have "\<dots> \<le> 2 ^ 53 * 2 ^ ?e" using q by (simp add: mult_le_mono1)
  finally have "n < 2 ^ (53 + ?e)" by (simp add: power_add)
  with assms have lt: "(2::nat) ^ 1024 < 2 ^ (53 + ?e)" by linarith
  have one: "(1::nat) < 2" by simp
  from power_less_imp_less_exp [OF one lt] have e: "971 < ?e" by linarith
  then have "0 < ?e" by simp
  with double_exp_bounds [of n] have lo: "2 ^ 52 \<le> ?q" by blast
  from e have "972 \<le> ?e" by simp
  then have "(2::nat) ^ 972 \<le> 2 ^ ?e" by (rule power_increasing) simp
  with lo have "(2::nat) ^ 52 * 2 ^ 972 \<le> ?q * 2 ^ ?e" by (rule mult_le_mono)
  then have "(2::nat) ^ 1024 \<le> ?q * 2 ^ ?e" by (simp add: power_add [symmetric])
  with round_nat_ge [of n] show ?thesis by linarith
qed

lemma round_double_overflow: "2 ^ 1024 \<le> m \<Longrightarrow> round_double m = Infinity"
proof -
  assume a: "2 ^ 1024 \<le> m"
  then have "(2::nat) ^ 1024 \<le> nat \<bar>m\<bar>" by (simp add: le_nat_iff)
  from round_nat_overflow [OF this] a show ?thesis
    by (simp add: round_double_def Let_def)
qed

lemma round_double_nonneg:
  "0 \<le> m \<Longrightarrow> round_double m = Infinity \<or> (\<exists>n. round_double m = Num n \<and> 0 \<le> n)"
  by (simp add: round_double_def Let_def)

lemma round_double_exact_abs: "\<bar>m\<bar> \<le> 2 ^ 53 \<Longrightarrow> round_double m = Num m"
proof (cases "0 \<le> m")
  case True
  assume "\<bar>m\<bar> \<le> 2 ^ 53"
  with True show ?thesis by (simp add: round_double_exact)
next
  case False
  assume a: "\<bar>m\<bar> \<le> 2 ^ 53"
  with False have le: "nat \<bar>m\<bar> \<le> 2 ^ 53" by (simp add: nat_le_iff)
  have "(2::nat) ^ 53 < 2 ^ 1024" by simp
  with le have big: "\<not> (2::nat) ^ 1024 \<le> nat \<bar>m\<bar>" by linarith
  have r: "round_nat (nat \<bar>m\<bar>) = nat \<bar>m\<bar>"
    by (rule round_nat_exact [OF le])
  show ?thesis
    unfolding round_double_def r using False big by (simp add: Let_def)
qed

section \<open>The renderer\<close>

lemma fold_cols:
  "fold (\<lambda>col c'. if cond col then c' else fillRect (f col) y w h c') cols c =
     c\<lparr>ops := ops c @ concat (map (\<lambda>col. if cond col then [] else [FillRect (fillStyle c) (f col) y w h]) cols)\<rparr>"
  by (induction cols arbitrary: c) (simp_all add: fillRect_def cong: if_cong)

lemma fold_rows:
  "fold (\<lambda>row c. c\<lparr>ops := ops c @ g (fillStyle c) row\<rparr>) rows c =
     c\<lparr>ops := ops c @ concat (map (g (fillStyle c)) rows)\<rparr>"
  by (induction rows arbitrary: c) simp_all

lemma renderCellsByCond_eq:
  "renderCellsByCond gfx style cond c =
     c\<lparr>fillStyle := style, ops := ops c @ cell_paints style cond\<rparr>"
  unfolding renderCellsByCond_def cell_paints_def fold_cols
  by (subst fold_rows [where g = "\<lambda>st row. concat (map (\<lambda>col. if cond row col then []
         else [FillRect st (col * (SCALE + 1) + 1) (row * (SCALE + 1) + 1) SCALE SCALE]) [0..<WIDTH])"]) (simp cong: if_cong)


lemma concat_map_single:
  "concat (map (\<lambda>i. if i = k \<and> P then [a] else []) [0..<n]) = (if k < n \<and> P then [a] else [])"
  by (induction n) auto

lemma paints_pixel_cell:
  assumes "in_cell r c x y"
  shows "paints_pixel x y
           (FillRect style (col * (SCALE + 1) + 1) (row * (SCALE + 1) + 1) SCALE SCALE) =
         (col = c \<and> row = r)"
proof -
  have "(col * 11 + 1 \<le> x \<and> x < col * 11 + 1 + 10) = (col = c)"
    using assms unfolding in_cell_def SCALE_def by auto
  moreover have "(row * 11 + 1 \<le> y \<and> y < row * 11 + 1 + 10) = (row = r)"
    using assms unfolding in_cell_def SCALE_def by auto
  ultimately show ?thesis
    unfolding paints_pixel_def SCALE_def by auto
qed

lemma filter_cell_single:
  assumes "in_cell r c x y"
  shows "filter (paints_pixel x y)
     (if cond row col then []
      else [FillRect style (col * (SCALE + 1) + 1) (row * (SCALE + 1) + 1) SCALE SCALE]) =
   (if col = c \<and> (row = r \<and> \<not> cond r c)
    then [FillRect style (c * (SCALE + 1) + 1) (r * (SCALE + 1) + 1) SCALE SCALE] else [])"
  using paints_pixel_cell [OF assms, of style col row] by auto

lemma filter_cell_paints:
  assumes "in_cell r c x y"
  shows "filter (paints_pixel x y) (cell_paints style cond) =
     (if r < HEIGHT \<and> c < WIDTH \<and> \<not> cond r c
      then [FillRect style (c * (SCALE + 1) + 1) (r * (SCALE + 1) + 1) SCALE SCALE] else [])"
proof -
  let ?a = "FillRect style (c * (SCALE + 1) + 1) (r * (SCALE + 1) + 1) SCALE SCALE"
  have inner: "concat (map (\<lambda>col. filter (paints_pixel x y)
        (if cond row col then []
         else [FillRect style (col * (SCALE + 1) + 1) (row * (SCALE + 1) + 1) SCALE SCALE]))
       [0..<WIDTH]) = (if row = r \<and> (c < WIDTH \<and> \<not> cond r c) then [?a] else [])" for row
    by (simp only: filter_cell_single [OF assms] concat_map_single)
       (simp add: conj_left_commute)
  show ?thesis
    by (simp only: cell_paints_def filter_concat map_map comp_def inner concat_map_single)
qed

lemma getIndex_less: "row < HEIGHT \<Longrightarrow> col < WIDTH \<Longrightarrow> getIndex row col < WIDTH * HEIGHT"
proof -
  assume "row < HEIGHT" "col < WIDTH"
  then have "row * 64 + col < 2048" by (simp add: HEIGHT_def WIDTH_def)
  then show ?thesis by (simp add: getIndex_def HEIGHT_def WIDTH_def)
qed

lemma gfx_view_length: "gfx_view api e = Inr gfx \<Longrightarrow> length gfx = WIDTH * HEIGHT"
  by (auto simp: gfx_view_def Uint8Array_def split: if_splits)

lemma renderGfx_Normal:
  "gfx_view api (emulator s) = Inr gfx \<Longrightarrow>
   renderGfx api s =
     Normal (s\<lparr>calls := calls s @ [Gfx],
               ctx := (ctx s)\<lparr>fillStyle := EMPTY_COLOR,
                 ops := ops (ctx s) @ [BeginPath]
                   @ cell_paints FILL_COLOR (\<lambda>row col. \<not> truthy (typed_get gfx (getIndex row col)))
                   @ cell_paints EMPTY_COLOR (\<lambda>row col. truthy (typed_get gfx (getIndex row col)))
                   @ [Stroke]\<rparr>\<rparr>)"
  by (simp add: renderGfx_def Let_def renderEmptyCells_def renderFilledCells_def
      renderCellsByCond_eq stroke_def beginPath_def)

lemma renderGfx_Throw:
  "gfx_view api (emulator s) = Inl err \<Longrightarrow>
   renderGfx api s = Throw err (s\<lparr>calls := calls s @ [Gfx]\<rparr>)"
  by (simp add: renderGfx_def Let_def)

text \<open>
  Claim C5. In one render, whenever the view of the framebuffer can be taken, every pixel of
  the square of each of the 64 by 32 cells is painted by exactly one of the rectangles the
  render draws, the cell's own: in the fill colour when the cell's byte is not zero, in the
  empty colour when it is zero. The render leaves the state of the interpreter's memory,
  and so the grid, as it was.
\<close>

theorem renderGfx_paints_each_cell_once:
  assumes view: "gfx_view api (emulator s) = Inr gfx"
    and row: "row < HEIGHT" and col: "col < WIDTH"
    and pixel: "in_cell row col x y"
  shows "filter (paints_pixel x y)
           (drop (length (ops (ctx s))) (ops (ctx (state_of (renderGfx api s))))) =
         [FillRect (if gfx ! getIndex row col \<noteq> 0 then FILL_COLOR else EMPTY_COLOR)
            (col * (SCALE + 1) + 1) (row * (SCALE + 1) + 1) SCALE SCALE]
       \<and> emulator (state_of (renderGfx api s)) = emulator s"
proof -
  have "getIndex row col < length gfx"
    using gfx_view_length [OF view] getIndex_less [OF row col] by simp
  then have t: "truthy (typed_get gfx (getIndex row col)) = (gfx ! getIndex row col \<noteq> 0)"
    by (simp add: truthy_def typed_get_def)
  show ?thesis
    using row col
    by (simp add: renderGfx_Normal [OF view] filter_cell_paints [OF pixel] t paints_pixel_def)
qed

theorem renderGfx_paints_each_cell_once_witness:
  "gfx_view demo_emulator
       (emulator ((chip8_new demo_emulator False None None)\<lparr>emulator := (replicate 2048 0)[0 := 1]\<rparr>)) =
     Inr ((replicate 2048 0)[0 := 1])
   \<and> (0::nat) < HEIGHT \<and> (0::nat) < WIDTH \<and> (1::nat) < WIDTH
   \<and> in_cell 0 0 10 1 \<and> in_cell 0 1 12 10
   \<and> filter (paints_pixel 10 1)
        (drop (length (ops (ctx ((chip8_new demo_emulator False None None)
                  \<lparr>emulator := (replicate 2048 0)[0 := 1]\<rparr>))))
           (ops (ctx (state_of (renderGfx demo_emulator ((chip8_new demo_emulator False None None)
                  \<lparr>emulator := (replicate 2048 0)[0 := 1]\<rparr>)))))) =
       [FillRect FILL_COLOR 1 1 10 10]
   \<and> filter (paints_pixel 12 10)
        (drop (length (ops (ctx ((chip8_new demo_emulator False None None)
                  \<lparr>emulator := (replicate 2048 0)[0 := 1]\<rparr>))))
           (ops (ctx (state_of (renderGfx demo_emulator ((chip8_new demo_emulator False None None)
                  \<lparr>emulator := (replicate 2048 0)[0 := 1]\<rparr>)))))) =
       [FillRect EMPTY_COLOR 12 1 10 10]"
proof -
  let ?s = "(chip8_new demo_emulator False None None)\<lparr>emulator := (replicate 2048 0)[0 := 1]\<rparr>"
  have view: "gfx_view demo_emulator (emulator ?s) = Inr ((replicate 2048 0)[0 := 1])"
    by (simp add: gfx_view_def Uint8Array_def demo_emulator_def WIDTH_def HEIGHT_def)
  have h: "(0::nat) < HEIGHT" and w0: "(0::nat) < WIDTH" and w1: "(1::nat) < WIDTH"
    by (simp_all add: HEIGHT_def WIDTH_def)
  have p0: "in_cell 0 0 10 1" and p1: "in_cell 0 1 12 10"
    by (simp_all add: in_cell_def SCALE_def)
  from renderGfx_paints_each_cell_once [OF view h w0 p0]
       renderGfx_paints_each_cell_once [OF view h w1 p1]
  show ?thesis
    using view h w0 w1 p0 p1 by (simp add: getIndex_def WIDTH_def SCALE_def)
qed

section \<open>The frame loop\<close>

lemma ticksPerFrame_tick [simp]:
  "ticksPerFrame (s\<lparr>emulator := e, calls := c\<rparr>) = ticksPerFrame s"
  by (simp add: ticksPerFrame_def)

lemma js_inc_exact: "0 \<le> i \<Longrightarrow> i < 2 ^ 53 \<Longrightarrow> js_inc (Num i) = Num (i + 1)"
  by (simp add: round_double_exact)

lemma js_inc_stuck: "js_inc (Num (2 ^ 53)) = Num (2 ^ 53)"
proof -
  have "round_nat (2 ^ 53 + 1) = 2 ^ 53"
    by (simp add: round_nat_def double_exp.simps)
  then have "round_nat (nat \<bar>2 ^ 53 + 1\<bar>) = 2 ^ 53"
    by (simp add: nat_add_distrib nat_power_eq)
  then show ?thesis
    unfolding js_inc.simps round_double_def by (simp add: Let_def)
qed

text \<open>A loop whose bound is an integer up to \<open>2 ^ 53\<close> ends.\<close>

lemma tick_loop_Num:
  "ticksPerFrame s = Num n \<Longrightarrow> n \<le> 2 ^ 53 \<Longrightarrow> 0 \<le> i \<Longrightarrow> k = nat (n - i) \<Longrightarrow>
   tick_loop api (Num i) s =
     Some (s\<lparr>emulator := (emu_tick api ^^ k) (emulator s),
             calls := calls s @ replicate k Tick\<rparr>)"
proof (induction k arbitrary: i s)
  case 0
  then have "\<not> js_lt (Num i) (ticksPerFrame s)" by simp
  then show ?case by (subst tick_loop.simps) simp
next
  case (Suc k)
  let ?s = "s\<lparr>emulator := emu_tick api (emulator s), calls := calls s @ [Tick]\<rparr>"
  from Suc.prems have lt: "i < n" by linarith
  with Suc.prems have inc: "js_inc (Num i) = Num (i + 1)"
    by (intro js_inc_exact) linarith+
  from Suc.prems lt have "tick_loop api (Num (i + 1)) ?s =
     Some (?s\<lparr>emulator := (emu_tick api ^^ k) (emulator ?s),
             calls := calls ?s @ replicate k Tick\<rparr>)"
    by (intro Suc.IH) simp_all
  with lt Suc.prems(1) inc show ?case
    by (subst tick_loop.simps) (simp add: funpow_swap1 replicate_app_Cons_same)
qed

lemma tick_loop_NegInfinity:
  "ticksPerFrame s = NegInfinity \<Longrightarrow> tick_loop api (Num 0) s = Some s"
  by (subst tick_loop.simps) simp

text \<open>A loop whose bound is above \<open>2 ^ 53\<close> never ends: the counter cannot pass it.\<close>

lemma tick_loop_stuck_aux:
  assumes ret: "tick_loop api i s = Some y"
  shows "\<not> (unbounded s \<and> (\<exists>j. i = Num j \<and> 0 \<le> j \<and> j \<le> 2 ^ 53))"
proof (rule tick_loop.raw_induct
    [where P = "\<lambda>api i s y. \<not> (unbounded s \<and> (\<exists>j. i = Num j \<and> 0 \<le> j \<and> j \<le> 2 ^ 53))",
     OF _ ret], goal_cases)
  case (1 f api i s y)
  note IH = "1"(1) and eq = "1"(2)
  show ?case
  proof
    assume a: "unbounded s \<and> (\<exists>j. i = Num j \<and> 0 \<le> j \<and> j \<le> 2 ^ 53)"
    then obtain j where j: "i = Num j" "0 \<le> j" "j \<le> 2 ^ 53" by blast
    let ?s = "s\<lparr>emulator := emu_tick api (emulator s), calls := calls s @ [Tick]\<rparr>"
    from a j have lt: "js_lt i (ticksPerFrame s)" by (auto simp: unbounded_def)
    with eq have nxt: "f api (js_inc i) ?s = Some y" by simp
    have "\<exists>j'. js_inc i = Num j' \<and> 0 \<le> j' \<and> j' \<le> 2 ^ 53"
    proof (cases "j = 2 ^ 53")
      case True
      with j(1) have "js_inc i = Num (2 ^ 53)" by (simp only: js_inc_stuck)
      then show ?thesis by (intro exI [of _ "2 ^ 53"]) simp
    next
      case False
      with j have "j < 2 ^ 53" by linarith
      with j show ?thesis by (simp add: js_inc_exact del: js_inc.simps)
    qed
    moreover from a have "unbounded ?s" by (simp add: unbounded_def)
    ultimately show False using IH [OF nxt] by blast
  qed
qed

lemma tick_loop_never:
  "unbounded s \<Longrightarrow> tick_loop api (Num 0) s = None"
  using tick_loop_stuck_aux [of api "Num 0" s] by (cases "tick_loop api (Num 0) s") auto

lemma tick_loop_returns:
  assumes "\<not> unbounded s"
  shows "tick_loop api (Num 0) s =
     Some (s\<lparr>emulator := (emu_tick api ^^ frame_ticks s) (emulator s),
             calls := calls s @ replicate (frame_ticks s) Tick\<rparr>)"
proof (cases "ticksPerFrame s")
  case (Num n)
  with assms have "n \<le> 2 ^ 53" by (auto simp: unbounded_def)
  from tick_loop_Num [OF Num this, of 0 "nat n" api] Num show ?thesis
    by (simp add: frame_ticks_def)
next
  case Infinity
  with assms show ?thesis by (simp add: unbounded_def)
next
  case NaN
  then show ?thesis by (subst tick_loop.simps) (simp add: frame_ticks_def)
next
  case NegInfinity
  then show ?thesis by (subst tick_loop.simps) (simp add: frame_ticks_def)
qed

lemma loop_never: "unbounded s \<Longrightarrow> loop api s = None"
  by (simp add: loop_def tick_loop_never)

lemma loop_Throw:
  "\<not> unbounded s \<Longrightarrow>
   gfx_view api ((emu_tick api ^^ frame_ticks s) (emulator s)) = Inl err \<Longrightarrow>
   loop api s =
     Some (Throw err (s\<lparr>emulator := (emu_tick api ^^ frame_ticks s) (emulator s),
                  calls := calls s @ replicate (frame_ticks s) Tick @ [Gfx]\<rparr>))"
  by (simp add: loop_def tick_loop_returns renderGfx_Throw)

lemma loop_Normal:
  "\<not> unbounded s \<Longrightarrow>
   gfx_view api ((emu_tick api ^^ frame_ticks s) (emulator s)) = Inr gfx \<Longrightarrow>
   loop api s =
     Some (Normal (s\<lparr>emulator := (emu_tick api ^^ frame_ticks s) (emulator s),
               calls := calls s @ replicate (frame_ticks s) Tick @ [Gfx],
               ctx := stroke (renderEmptyCells gfx (renderFilledCells gfx (beginPath (ctx s)))),
               raf_counter := Suc (raf_counter s),
               raf_pending := raf_pending s @ [Suc (raf_counter s)],
               animationId := Some (Suc (raf_counter s))\<rparr>))"
  by (simp add: loop_def tick_loop_returns renderGfx_def requestAnimationFrame_def Let_def)

lemma loop_returns:
  assumes "\<not> unbounded s"
  shows "\<exists>c. loop api s = Some c
    \<and> calls (state_of c) = calls s @ replicate (frame_ticks s) Tick @ [Gfx]
    \<and> emulator (state_of c) = (emu_tick api ^^ frame_ticks s) (emulator s)"
  by (cases "gfx_view api ((emu_tick api ^^ frame_ticks s) (emulator s))")
     (simp_all add: loop_Throw [OF assms] loop_Normal [OF assms])

lemma loop_Some_calls:
  assumes "loop api s = Some c"
  shows "calls (state_of c) = calls s @ replicate (frame_ticks s) Tick @ [Gfx]"
proof -
  from assms have "\<not> unbounded s" using loop_never [of s api] by auto
  from loop_returns [OF this, of api] assms show ?thesis by auto
qed

lemma bounded_Num: "ticksPerFrame s = Num n \<Longrightarrow> n \<le> 2 ^ 53 \<Longrightarrow> \<not> unbounded s"
  by (auto simp: unbounded_def)

lemma frame_ticks_Num: "ticksPerFrame s = Num n \<Longrightarrow> frame_ticks s = nat n"
  by (simp add: frame_ticks_def)

subsection \<open>The getter at some attributes\<close>

lemma parseInt10_null: "parseInt10 a (js_str ''null'') = NaN"
  by (simp add: js_str_def parseInt10_def StrWhiteSpaceChar_def is_digit10_def)

lemma parseInt10_0: "parseInt10 a (js_str ''0'') = Num 0"
  by (cases a) (simp_all add: js_str_def parseInt10_def StrWhiteSpaceChar_def is_digit10_def digits_value_def
      significant20_def round_double_exact)

lemma parseInt10_minus5: "parseInt10 False (js_str ''-5'') = Num (- 5)"
proof -
  have "round_double (- 5) = Num (- 5)" by (rule round_double_exact_abs) simp
  then show ?thesis
    by (simp add: js_str_def parseInt10_def StrWhiteSpaceChar_def is_digit10_def digits_value_def)
qed

lemma parseInt10_25: "parseInt10 False (js_str '' 25px'') = Num 25"
proof -
  have "round_double 25 = Num 25" by (rule round_double_exact) simp_all
  then show ?thesis
    by (simp add: js_str_def parseInt10_def StrWhiteSpaceChar_def is_digit10_def digits_value_def)
qed

lemma round_double_big: "round_double 9007199254740994 = Num 9007199254740994"
proof -
  have "round_nat 9007199254740994 = 9007199254740994"
    by (simp add: round_nat_def double_exp.simps)
  then show ?thesis by (simp add: round_double_def Let_def)
qed

lemma parseInt10_big: "parseInt10 False (js_str ''9007199254740994'') = Num 9007199254740994"
  using round_double_big
  by (simp add: js_str_def parseInt10_def StrWhiteSpaceChar_def is_digit10_def digits_value_def)

lemma digits_nines: "digits_value (replicate k 0x39) = 10 ^ k - 1"
proof -
  have "foldl (\<lambda>acc c. 10 * acc + (int c - 0x30)) a (replicate k 0x39) = 10 ^ k * (a + 1) - 1" for a
    by (induction k arbitrary: a) (simp_all add: algebra_simps)
  from this [of 0] show ?thesis by (simp add: digits_value_def)
qed

lemma parseInt10_nines: "parseInt10 False (replicate 310 0x39) = Infinity"
proof -
  let ?S = "replicate 310 (0x39::nat)"
  have "(2::int) ^ 1024 \<le> 10 ^ 310 - 1" by simp
  then have r: "round_double (10 ^ 310 - 1) = Infinity" by (rule round_double_overflow)
  have t: "takeWhile is_digit10 ?S = ?S"
    by (simp add: is_digit10_def takeWhile_eq_all_conv)
  have d: "dropWhile StrWhiteSpaceChar ?S = ?S"
    by (simp add: StrWhiteSpaceChar_def dropWhile_eq_self_iff)
  have s': "(if ?S \<noteq> [] \<and> (hd ?S = 0x2B \<or> hd ?S = 0x2D) then tl ?S else ?S) = ?S"
    by simp
  have sg: "(if ?S \<noteq> [] \<and> hd ?S = 0x2D then - 1 else 1) = (1::int)"
    by simp
  have ne: "(?S = []) = False" by simp
  show ?thesis
    unfolding parseInt10_def d Let_def s' sg t
    by (simp only: ne if_False mult_1 digits_nines r)
qed

lemma round_double_overflow_neg: "m \<le> - (2 ^ 1024) \<Longrightarrow> round_double m = NegInfinity"
proof -
  assume a: "m \<le> - (2 ^ 1024)"
  then have "(2::nat) ^ 1024 \<le> nat \<bar>m\<bar>" by (simp add: le_nat_iff)
  from round_nat_overflow [OF this] a show ?thesis
    by (simp add: round_double_def Let_def)
qed

lemma parseInt10_minus_nines: "parseInt10 False (0x2D # replicate 310 0x39) = NegInfinity"
proof -
  let ?N = "replicate 310 (0x39::nat)"
  let ?S = "0x2D # ?N"
  have "- (10 ^ 310 - 1) \<le> - ((2::int) ^ 1024)" by simp
  then have r: "round_double (- (10 ^ 310 - 1)) = NegInfinity"
    by (rule round_double_overflow_neg)
  have t: "takeWhile is_digit10 ?N = ?N"
    by (simp add: is_digit10_def takeWhile_eq_all_conv)
  have d: "dropWhile StrWhiteSpaceChar ?S = ?S"
    by (simp add: StrWhiteSpaceChar_def)
  have s': "(if ?S \<noteq> [] \<and> (hd ?S = 0x2B \<or> hd ?S = 0x2D) then tl ?S else ?S) = ?N"
    by simp
  have sg: "(if ?S \<noteq> [] \<and> hd ?S = 0x2D then - 1 else 1) = (- 1::int)"
    by simp
  have ne: "(?N = []) = False" by simp
  have m: "- 1 * (10 ^ 310 - 1) = - (10 ^ 310 - 1 :: int)" by simp
  show ?thesis
    unfolding parseInt10_def d Let_def s' sg t
    by (simp only: ne if_False digits_nines m r)
qed

lemma ticksPerFrame_cases:
  "ticksPerFrame s =
     (let p = parseInt10 (parseInt_approximates s) (ToString_attr (attr_ticks_per_frame s))
      in if p = NaN \<or> p = Num 0 then Num 10 else p)"
  by (simp add: ticksPerFrame_def js_or_def ToBoolean_def Let_def split: js_number.splits)

lemma ticksPerFrame_new:
  "ticksPerFrame (chip8_new api a st t) =
     (let p = parseInt10 a (ToString_attr t) in if p = NaN \<or> p = Num 0 then Num 10 else p)"
  by (simp add: ticksPerFrame_cases chip8_new_def)

lemma demo_ticks:
  "ticksPerFrame (chip8_new api a st None) = Num 10"
  "ticksPerFrame (chip8_new api False st (Some (js_str ''-5''))) = Num (- 5)"
  "ticksPerFrame (chip8_new api False st (Some (js_str ''9007199254740994''))) =
     Num 9007199254740994"
  "ticksPerFrame (chip8_new api False st (Some (replicate 310 0x39))) = Infinity"
  "ticksPerFrame (chip8_new api False st (Some (0x2D # replicate 310 0x39))) = NegInfinity"
  "ticksPerFrame (chip8_new api False st (Some (js_str '' 25px''))) = Num 25"
  "ticksPerFrame (chip8_new api a st (Some (js_str ''0''))) = Num 10"
  unfolding ticksPerFrame_new ToString_attr_def option.case parseInt10_null parseInt10_minus5
    parseInt10_big parseInt10_nines parseInt10_minus_nines parseInt10_25 parseInt10_0
  by (simp_all add: Let_def)

subsection \<open>One frame\<close>

text \<open>
  Claim C1, as amended. When \<^verbatim>\<open>ticksPerFrame\<close> is an integer of at most \<open>2 ^ 53\<close>, one
  run of \<^verbatim>\<open>loop\<close> (one frame) returns: it calls \<^verbatim>\<open>tick\<close> exactly that many times
  (no time when the integer is negative, and none for \<^verbatim>\<open>-Infinity\<close>), then reads the
  framebuffer once and, when the view can be taken, paints the canvas from the bytes the
  interpreter holds after those ticks and requests the next animation frame once. When
  \<^verbatim>\<open>ticksPerFrame\<close> is \<^verbatim>\<open>Infinity\<close> or an integer above \<open>2 ^ 53\<close>, the run never leaves
  its tick loop: it reads no framebuffer and requests no frame.
\<close>

theorem loop_ticks_then_redraws_once:
  "(ticksPerFrame s = Num n \<and> n \<le> 2 ^ 53 \<longrightarrow>
      (\<exists>c. loop api s = Some c
         \<and> calls (state_of c) = calls s @ replicate (nat n) Tick @ [Gfx]
         \<and> emulator (state_of c) = (emu_tick api ^^ nat n) (emulator s)
         \<and> (gfx_view api ((emu_tick api ^^ nat n) (emulator s)) = Inr gfx \<longrightarrow>
              ctx (state_of c) =
                stroke (renderEmptyCells gfx (renderFilledCells gfx (beginPath (ctx s))))
              \<and> raf_pending (state_of c) = raf_pending s @ [Suc (raf_counter s)]
              \<and> animationId (state_of c) = Some (Suc (raf_counter s)))))
   \<and> (ticksPerFrame s = NegInfinity \<longrightarrow>
        (\<exists>c. loop api s = Some c \<and> calls (state_of c) = calls s @ [Gfx]
           \<and> emulator (state_of c) = emulator s))
   \<and> (ticksPerFrame s = Infinity \<or> (\<exists>n. ticksPerFrame s = Num n \<and> 2 ^ 53 < n) \<longrightarrow>
        loop api s = None)"
proof (intro conjI impI)
  assume a: "ticksPerFrame s = Num n \<and> n \<le> 2 ^ 53"
  then have b: "\<not> unbounded s" and k: "frame_ticks s = nat n"
    by (simp_all add: bounded_Num frame_ticks_Num)
  show "\<exists>c. loop api s = Some c
         \<and> calls (state_of c) = calls s @ replicate (nat n) Tick @ [Gfx]
         \<and> emulator (state_of c) = (emu_tick api ^^ nat n) (emulator s)
         \<and> (gfx_view api ((emu_tick api ^^ nat n) (emulator s)) = Inr gfx \<longrightarrow>
              ctx (state_of c) =
                stroke (renderEmptyCells gfx (renderFilledCells gfx (beginPath (ctx s))))
              \<and> raf_pending (state_of c) = raf_pending s @ [Suc (raf_counter s)]
              \<and> animationId (state_of c) = Some (Suc (raf_counter s)))"
  proof (cases "gfx_view api ((emu_tick api ^^ nat n) (emulator s))")
    case (Inl err)
    with loop_Throw [OF b, of api err] k show ?thesis by simp
  next
    case (Inr g)
    with loop_Normal [OF b, of api g] k show ?thesis by simp
  qed
next
  assume a: "ticksPerFrame s = NegInfinity"
  then have "\<not> unbounded s" and "frame_ticks s = 0"
    by (simp_all add: unbounded_def frame_ticks_def)
  with loop_returns [of s api]
  show "\<exists>c. loop api s = Some c \<and> calls (state_of c) = calls s @ [Gfx]
           \<and> emulator (state_of c) = emulator s"
    by simp
next
  assume "ticksPerFrame s = Infinity \<or> (\<exists>n. ticksPerFrame s = Num n \<and> 2 ^ 53 < n)"
  then have "unbounded s" by (simp add: unbounded_def)
  then show "loop api s = None" by (rule loop_never)
qed

theorem loop_ticks_then_redraws_once_witness:
  "ticksPerFrame (chip8_new demo_emulator False None None) = Num 10 \<and> (10::int) \<le> 2 ^ 53
   \<and> gfx_view demo_emulator ((emu_tick demo_emulator ^^ nat 10)
         (emulator (chip8_new demo_emulator False None None))) = Inr ((replicate 2048 0)[0 := 1])
   \<and> (\<exists>c. loop demo_emulator (chip8_new demo_emulator False None None) = Some c
         \<and> calls (state_of c) =
             [New, Tick, Tick, Tick, Tick, Tick, Tick, Tick, Tick, Tick, Tick, Gfx]
         \<and> emulator (state_of c) = (replicate 2048 0)[0 := 1]
         \<and> raf_pending (state_of c) = [1])
   \<and> ticksPerFrame (chip8_new demo_emulator False None (Some (0x2D # replicate 310 0x39))) =
       NegInfinity
   \<and> (\<exists>c. loop demo_emulator
             (chip8_new demo_emulator False None (Some (0x2D # replicate 310 0x39))) = Some c
         \<and> calls (state_of c) = [New, Gfx])
   \<and> ticksPerFrame (chip8_new demo_emulator False None (Some (replicate 310 0x39))) = Infinity
   \<and> loop demo_emulator (chip8_new demo_emulator False None (Some (replicate 310 0x39))) = None"
proof -
  let ?s = "chip8_new demo_emulator False None None"
  let ?n = "chip8_new demo_emulator False None (Some (0x2D # replicate 310 0x39))"
  let ?i = "chip8_new demo_emulator False None (Some (replicate 310 0x39))"
  let ?g = "(replicate 2048 0)[0 := 1] :: 8 word list"
  have t: "ticksPerFrame ?s = Num 10" and le: "(10::int) \<le> 2 ^ 53"
    by (simp_all add: demo_ticks)
  have f: "(emu_tick demo_emulator ^^ nat 10) (emulator ?s) = ?g"
    by (simp add: demo_emulator_def chip8_new_def eval_nat_numeral)
  have v: "gfx_view demo_emulator ((emu_tick demo_emulator ^^ nat 10) (emulator ?s)) = Inr ?g"
    unfolding f by (simp add: gfx_view_def Uint8Array_def demo_emulator_def WIDTH_def HEIGHT_def)
  have c: "calls ?s @ replicate (nat 10) Tick @ [Gfx] =
      [New, Tick, Tick, Tick, Tick, Tick, Tick, Tick, Tick, Tick, Tick, Gfx]"
    by (simp add: chip8_new_def eval_nat_numeral)
  have r: "raf_pending ?s @ [Suc (raf_counter ?s)] = [1]"
    by (simp add: chip8_new_def)
  from loop_ticks_then_redraws_once [of ?s 10 demo_emulator ?g] t le v
  have "\<exists>c. loop demo_emulator ?s = Some c
      \<and> calls (state_of c) = calls ?s @ replicate (nat 10) Tick @ [Gfx]
      \<and> emulator (state_of c) = (emu_tick demo_emulator ^^ nat 10) (emulator ?s)
      \<and> raf_pending (state_of c) = raf_pending ?s @ [Suc (raf_counter ?s)]"
    by blast
  then have a: "\<exists>c. loop demo_emulator ?s = Some c
      \<and> calls (state_of c) =
          [New, Tick, Tick, Tick, Tick, Tick, Tick, Tick, Tick, Tick, Tick, Gfx]
      \<and> emulator (state_of c) = ?g \<and> raf_pending (state_of c) = [1]"
    unfolding c f r .
  have tn: "ticksPerFrame ?n = NegInfinity" by (rule demo_ticks)
  have cn: "calls ?n @ [Gfx] = [New, Gfx]" by (simp add: chip8_new_def)
  from loop_ticks_then_redraws_once [of ?n 0 demo_emulator ?g] tn
  have "\<exists>c. loop demo_emulator ?n = Some c \<and> calls (state_of c) = calls ?n @ [Gfx]"
    by blast
  then have b: "\<exists>c. loop demo_emulator ?n = Some c \<and> calls (state_of c) = [New, Gfx]"
    unfolding cn .
  have ti: "ticksPerFrame ?i = Infinity" by (rule demo_ticks)
  from loop_ticks_then_redraws_once [of ?i 0 demo_emulator ?g] ti
  have d: "loop demo_emulator ?i = None" by blast
  from t le v a tn b ti d show ?thesis by blast
qed

text \<open>
  Claim C1 as stated fails. With the attribute \<^verbatim>\<open>"9007199254740994"\<close> the frame never
  returns, so no redraw is requested; with \<^verbatim>\<open>"-5"\<close> the getter gives -5 and the frame
  makes no tick call before its redraw.
\<close>

theorem loop_ticks_counterexample:
  "ticksPerFrame (chip8_new demo_emulator False None (Some (js_str ''9007199254740994''))) =
     Num 9007199254740994
   \<and> loop demo_emulator
        (chip8_new demo_emulator False None (Some (js_str ''9007199254740994''))) = None
   \<and> ticksPerFrame (chip8_new demo_emulator False None (Some (js_str ''-5''))) = Num (- 5)
   \<and> map_option (calls \<circ> state_of)
        (loop demo_emulator (chip8_new demo_emulator False None (Some (js_str ''-5'')))) =
       Some [New, Gfx]"
proof -
  let ?b = "chip8_new demo_emulator False None (Some (js_str ''9007199254740994''))"
  let ?m = "chip8_new demo_emulator False None (Some (js_str ''-5''))"
  have tb: "ticksPerFrame ?b = Num 9007199254740994" by (rule demo_ticks)
  then have "unbounded ?b" unfolding unbounded_def by simp
  then have nb: "loop demo_emulator ?b = None" by (rule loop_never)
  have tm: "ticksPerFrame ?m = Num (- 5)" by (rule demo_ticks)
  then have "\<not> unbounded ?m" and k: "frame_ticks ?m = 0"
    by (simp_all add: unbounded_def frame_ticks_def)
  from loop_returns [OF this(1), of demo_emulator] obtain c where
    c: "loop demo_emulator ?m = Some c"
       "calls (state_of c) = calls ?m @ replicate (frame_ticks ?m) Tick @ [Gfx]"
    by blast
  have "calls ?m @ replicate 0 Tick @ [Gfx] = [New, Gfx]" by (simp add: chip8_new_def)
  with c k have "map_option (calls \<circ> state_of) (loop demo_emulator ?m) = Some [New, Gfx]"
    by simp
  with tb nb tm show ?thesis by blast
qed

text \<open>
  Claim C2, as amended. No frame of the loop that completes invokes
  \<^verbatim>\<open>decrement_timers\<close>: the calls it has made on the interpreter are exactly
  \<open>frame_ticks\<close> ticks, that is \<^verbatim>\<open>ticksPerFrame\<close> of them when that is an integer and
  not negative, followed by one framebuffer read. A frame completes exactly when
  \<^verbatim>\<open>ticksPerFrame\<close> is an integer of at most \<open>2 ^ 53\<close> or \<^verbatim>\<open>-Infinity\<close>.
\<close>

theorem loop_never_decrements_timers:
  "(loop api s = Some c \<longrightarrow>
      calls (state_of c) = calls s @ replicate (frame_ticks s) Tick @ [Gfx]
      \<and> DecrementTimers \<notin> set (replicate (frame_ticks s) Tick @ [Gfx])
      \<and> (ticksPerFrame s = NegInfinity \<or> (\<exists>n. ticksPerFrame s = Num n \<and> n \<le> 2 ^ 53)))
   \<and> (ticksPerFrame s = Num n \<and> n \<le> 2 ^ 53 \<longrightarrow>
        frame_ticks s = nat n \<and> (\<exists>c. loop api s = Some c))
   \<and> (ticksPerFrame s = NegInfinity \<longrightarrow>
        frame_ticks s = 0 \<and> (\<exists>c. loop api s = Some c))"
proof (intro conjI impI)
  assume r: "loop api s = Some c"
  then show "calls (state_of c) = calls s @ replicate (frame_ticks s) Tick @ [Gfx]"
    by (rule loop_Some_calls)
  show "DecrementTimers \<notin> set (replicate (frame_ticks s) Tick @ [Gfx])" by auto
  from r have b: "\<not> unbounded s" using loop_never [of s api] by auto
  have "ticksPerFrame s \<noteq> NaN" by (simp add: ticksPerFrame_cases Let_def)
  with b show "ticksPerFrame s = NegInfinity \<or> (\<exists>n. ticksPerFrame s = Num n \<and> n \<le> 2 ^ 53)"
    by (cases "ticksPerFrame s") (auto simp: unbounded_def)
next
  assume a: "ticksPerFrame s = Num n \<and> n \<le> 2 ^ 53"
  then show "frame_ticks s = nat n" by (simp add: frame_ticks_Num)
  from a have "\<not> unbounded s" by (simp add: bounded_Num)
  from loop_returns [OF this, of api] show "\<exists>c. loop api s = Some c" by blast
next
  assume a: "ticksPerFrame s = NegInfinity"
  then show "frame_ticks s = 0" by (simp add: frame_ticks_def)
  from a have "\<not> unbounded s" by (simp add: unbounded_def)
  from loop_returns [OF this, of api] show "\<exists>c. loop api s = Some c" by blast
qed

theorem loop_never_decrements_timers_witness:
  "ticksPerFrame (chip8_new demo_emulator False None None) = Num 10 \<and> (10::int) \<le> 2 ^ 53
   \<and> (\<exists>c. loop demo_emulator (chip8_new demo_emulator False None None) = Some c
         \<and> calls (state_of c) =
             calls (chip8_new demo_emulator False None None) @ replicate (nat 10) Tick @ [Gfx])"
proof -
  let ?s = "chip8_new demo_emulator False None None"
  have t: "ticksPerFrame ?s = Num 10" and le: "(10::int) \<le> 2 ^ 53"
    by (simp_all add: demo_ticks)
  from loop_never_decrements_timers [of demo_emulator ?s _ 10] t le
  obtain c where c: "loop demo_emulator ?s = Some c" and k: "frame_ticks ?s = nat 10" by blast
  from loop_never_decrements_timers [of demo_emulator ?s c 10] c
  have "calls (state_of c) = calls ?s @ replicate (frame_ticks ?s) Tick @ [Gfx]" by blast
  then have "calls (state_of c) = calls ?s @ replicate (nat 10) Tick @ [Gfx]"
    unfolding k .
  with c t le show ?thesis by blast
qed

text \<open>
  Claim C2 as stated fails: a frame of the stand-in page makes ten ticks and one framebuffer
  read, and no \<^verbatim>\<open>decrement_timers\<close> call.
\<close>

theorem loop_decrement_timers_counterexample:
  "map_option (calls \<circ> state_of)
       (loop demo_emulator (chip8_new demo_emulator False None None)) =
     Some [New, Tick, Tick, Tick, Tick, Tick, Tick, Tick, Tick, Tick, Tick, Gfx]
   \<and> DecrementTimers \<notin>
       set [New, Tick, Tick, Tick, Tick, Tick, Tick, Tick, Tick, Tick, Tick, Gfx]"
proof -
  let ?s = "chip8_new demo_emulator False None None"
  have t: "ticksPerFrame ?s = Num 10" by (rule demo_ticks)
  then have "\<not> unbounded ?s" and k: "frame_ticks ?s = 10"
    by (simp_all add: unbounded_def frame_ticks_def)
  from loop_returns [OF this(1), of demo_emulator] obtain c where
    c: "loop demo_emulator ?s = Some c"
       "calls (state_of c) = calls ?s @ replicate (frame_ticks ?s) Tick @ [Gfx]"
    by blast
  have "calls ?s @ replicate 10 Tick @ [Gfx] =
      [New, Tick, Tick, Tick, Tick, Tick, Tick, Tick, Tick, Tick, Tick, Gfx]"
    by (simp add: chip8_new_def eval_nat_numeral)
  with c k show ?thesis by simp
qed

section \<open>The ticks-per-frame attribute\<close>

lemma foldl_digits_nonneg:
  "0 \<le> acc \<Longrightarrow> \<forall>c \<in> set ds. is_digit10 c \<Longrightarrow>
   0 \<le> foldl (\<lambda>acc c. 10 * acc + (int c - 0x30)) acc ds"
  by (induction ds arbitrary: acc) (auto simp: is_digit10_def)

lemma digits_value_nonneg: "\<forall>c \<in> set ds. is_digit10 c \<Longrightarrow> 0 \<le> digits_value ds"
  unfolding digits_value_def by (rule foldl_digits_nonneg) simp_all

lemma significant20_digits:
  "\<forall>c \<in> set Z. is_digit10 c \<Longrightarrow> \<forall>c \<in> set (significant20 Z). is_digit10 c"
  by (auto simp: significant20_def Let_def is_digit10_def
      dest: set_takeWhileD set_dropWhileD in_set_takeD)

lemma mathInt_nonneg:
  "0 \<le> digits_value (if a then significant20 (takeWhile is_digit10 S)
                      else takeWhile is_digit10 S)"
proof -
  have "\<forall>c \<in> set (takeWhile is_digit10 S). is_digit10 c"
    by (auto dest: set_takeWhileD)
  then show ?thesis
    using digits_value_nonneg [of "takeWhile is_digit10 S"]
      digits_value_nonneg [OF significant20_digits, of "takeWhile is_digit10 S"]
    by (cases a) simp_all
qed

lemma parseInt10_nonneg:
  assumes "\<not> minus_signed str"
  shows "parseInt10 a str = NaN \<or> parseInt10 a str = Infinity
         \<or> (\<exists>n. parseInt10 a str = Num n \<and> 0 \<le> n)"
proof -
  let ?S = "dropWhile StrWhiteSpaceChar str"
  let ?S' = "if ?S \<noteq> [] \<and> (hd ?S = 0x2B \<or> hd ?S = 0x2D) then tl ?S else ?S"
  let ?m = "digits_value (if a then significant20 (takeWhile is_digit10 ?S')
                          else takeWhile is_digit10 ?S')"
  from assms have sign: "(if ?S \<noteq> [] \<and> hd ?S = 0x2D then - 1 else 1) = (1::int)"
    by (auto simp: minus_signed_def Let_def)
  have "0 \<le> ?m" by (rule mathInt_nonneg)
  from round_double_nonneg [OF this] show ?thesis
    unfolding parseInt10_def Let_def sign by auto
qed

text \<open>
  Claim C8, as amended. For every value of the \<^verbatim>\<open>ticks-per-frame\<close> attribute the
  getter returns a Number that is neither \<^verbatim>\<open>NaN\<close> nor zero: the Number that
  \<^verbatim>\<open>parseInt\<close> yields when that is neither \<^verbatim>\<open>NaN\<close> nor zero, and 10 otherwise, so
  10 for an absent attribute, for text that is not numeric and for \<^verbatim>\<open>"0"\<close>. It is an
  integer or an infinity, and it is positive whenever the text does not start, after white
  space, with a minus sign.
\<close>

theorem ticksPerFrame_nonzero:
  "ticksPerFrame s =
     (let p = parseInt10 (parseInt_approximates s) (ToString_attr (attr_ticks_per_frame s))
      in if p = NaN \<or> p = Num 0 then Num 10 else p)
   \<and> ticksPerFrame s \<noteq> NaN \<and> ticksPerFrame s \<noteq> Num 0
   \<and> (\<not> minus_signed (ToString_attr (attr_ticks_per_frame s)) \<longrightarrow>
        ticksPerFrame s = Infinity \<or> (\<exists>n. ticksPerFrame s = Num n \<and> 0 < n))
   \<and> (attr_ticks_per_frame s = None \<longrightarrow> ticksPerFrame s = Num 10)
   \<and> (attr_ticks_per_frame s = Some (js_str ''0'') \<longrightarrow> ticksPerFrame s = Num 10)"
proof (intro conjI impI)
  show "ticksPerFrame s =
     (let p = parseInt10 (parseInt_approximates s) (ToString_attr (attr_ticks_per_frame s))
      in if p = NaN \<or> p = Num 0 then Num 10 else p)"
    by (rule ticksPerFrame_cases)
  show "ticksPerFrame s \<noteq> NaN" "ticksPerFrame s \<noteq> Num 0"
    by (simp_all add: ticksPerFrame_cases Let_def)
next
  assume "\<not> minus_signed (ToString_attr (attr_ticks_per_frame s))"
  from parseInt10_nonneg [OF this, of "parseInt_approximates s"]
  show "ticksPerFrame s = Infinity \<or> (\<exists>n. ticksPerFrame s = Num n \<and> 0 < n)"
    by (auto simp: ticksPerFrame_cases Let_def)
next
  assume "attr_ticks_per_frame s = None"
  then show "ticksPerFrame s = Num 10"
    by (simp add: ticksPerFrame_cases ToString_attr_def parseInt10_null)
next
  assume "attr_ticks_per_frame s = Some (js_str ''0'')"
  then show "ticksPerFrame s = Num 10"
    by (simp add: ticksPerFrame_cases ToString_attr_def parseInt10_0)
qed

theorem ticksPerFrame_nonzero_witness:
  "\<not> minus_signed (ToString_attr (attr_ticks_per_frame
         (chip8_new demo_emulator False None (Some (js_str '' 25px'')))))
   \<and> ticksPerFrame (chip8_new demo_emulator False None (Some (js_str '' 25px''))) = Num 25
   \<and> attr_ticks_per_frame (chip8_new demo_emulator False None None) = None
   \<and> ticksPerFrame (chip8_new demo_emulator False None None) = Num 10
   \<and> attr_ticks_per_frame (chip8_new demo_emulator False None (Some (js_str ''0''))) =
       Some (js_str ''0'')
   \<and> ticksPerFrame (chip8_new demo_emulator False None (Some (js_str ''0''))) = Num 10"
proof -
  let ?a = "chip8_new demo_emulator False None (Some (js_str '' 25px''))"
  let ?b = "chip8_new demo_emulator False None None"
  let ?c = "chip8_new demo_emulator False None (Some (js_str ''0''))"
  have m: "\<not> minus_signed (ToString_attr (attr_ticks_per_frame ?a))"
    by (simp add: chip8_new_def ToString_attr_def minus_signed_def StrWhiteSpaceChar_def
        js_str_def)
  have p: "parseInt10 (parseInt_approximates ?a) (ToString_attr (attr_ticks_per_frame ?a)) =
      Num 25"
    by (simp add: chip8_new_def ToString_attr_def parseInt10_25)
  have a: "ticksPerFrame ?a = Num 25"
    using ticksPerFrame_nonzero [of ?a] by (simp add: p)
  have nb: "attr_ticks_per_frame ?b = None"
    and nc: "attr_ticks_per_frame ?c = Some (js_str ''0'')"
    by (simp_all add: chip8_new_def)
  have b: "ticksPerFrame ?b = Num 10"
    using ticksPerFrame_nonzero [of ?b] nb by blast
  have c: "ticksPerFrame ?c = Num 10"
    using ticksPerFrame_nonzero [of ?c] nc by blast
  from m a nb b nc c show ?thesis by blast
qed

text \<open>
  Claim C8 as stated fails: for the attribute \<^verbatim>\<open>"-5"\<close> the getter returns -5, which
  is not positive, and for an attribute of 310 nines it returns \<^verbatim>\<open>Infinity\<close>, which is
  not an integer.
\<close>

theorem ticksPerFrame_positive_counterexample:
  "ticksPerFrame (chip8_new demo_emulator False None (Some (js_str ''-5''))) = Num (- 5)
   \<and> ticksPerFrame (chip8_new demo_emulator False None (Some (replicate 310 0x39))) = Infinity"
  by (simp add: demo_ticks)

section \<open>Uploading: reset, then load\<close>

lemma js_str_false_ne_true: "js_str ''false'' \<noteq> js_str ''true''"
  by (simp add: js_str_def)

lemma started_set_started [simp]: "started (set_started v s) = v"
  by (simp add: started_def set_started_def js_str_false_ne_true)










section \<open>Key events and the interpreter\<close>

lemma start_returns: "\<not> unbounded s \<Longrightarrow> \<exists>c. start api s = Some c"
proof -
  assume "\<not> unbounded s"
  from loop_returns [OF this, of api] obtain c where "loop api s = Some c" by blast
  then show ?thesis by (cases c) (simp_all add: start_def)
qed

lemma toggle_returns: "\<not> unbounded s \<Longrightarrow> \<exists>c. toggle api s = Some c"
  using start_returns [of s api] by (simp add: toggle_def)

lemma unbounded_raf_pending [simp]: "unbounded (s\<lparr>raf_pending := x\<rparr>) = unbounded s"
  by (simp add: unbounded_def ticksPerFrame_def)

lemma element_event_returns:
  assumes "\<not> unbounded s"
  shows "\<exists>s'. element_event api ev s = Some s'"
proof (cases ev)
  case StartClick
  with toggle_returns [OF assms, of api] show ?thesis by auto
next
  case (AnimationFrame h)
  from assms have "\<not> unbounded (s\<lparr>raf_pending := removeAll h (raf_pending s)\<rparr>)" by simp
  from loop_returns [OF this, of api] AnimationFrame show ?thesis by auto
qed simp_all

text \<open>
  Claim C3, as amended. A keydown or keyup event makes no call on the interpreter and
  leaves the element, and with it the interpreter, as it was: the adapter records the state
  of the translated logical key in its own table \<^verbatim>\<open>pressed\<close>, where
  \<^verbatim>\<open>is_key_pressed\<close> reads it (pressed after a keydown, released after a keyup of a
  mapped key). No other event of the page changes that table, and every other event
  returns when the frame loop can end.
\<close>

theorem key_events_stay_in_keyboard:
  "(\<exists>pg'. dispatch api (KeyEvent e) pg = Some pg' \<and> element pg' = element pg)
   \<and> (KEYS_MAP c = Some k \<longrightarrow>
        (\<exists>pg'. dispatch api (KeyEvent (Keydown c)) pg = Some pg'
           \<and> is_key_pressed (kbd pg') (Some k))
        \<and> (\<exists>pg'. dispatch api (KeyEvent (Keyup c)) pg = Some pg'
           \<and> \<not> is_key_pressed (kbd pg') (Some k)))
   \<and> ((\<forall>e. ev \<noteq> KeyEvent e) \<and> dispatch api ev pg = Some pg' \<longrightarrow> kbd pg' = kbd pg)
   \<and> ((\<forall>e. ev \<noteq> KeyEvent e) \<and> \<not> unbounded (element pg) \<longrightarrow>
        (\<exists>pg'. dispatch api ev pg = Some pg' \<and> kbd pg' = kbd pg))"
proof (intro conjI impI)
  show "\<exists>pg'. dispatch api (KeyEvent e) pg = Some pg' \<and> element pg' = element pg"
    by simp
  show "kbd pg' = kbd pg" if "(\<forall>e. ev \<noteq> KeyEvent e) \<and> dispatch api ev pg = Some pg'"
    using that by (cases ev) auto
  show "\<exists>pg'. dispatch api ev pg = Some pg' \<and> kbd pg' = kbd pg"
    if "(\<forall>e. ev \<noteq> KeyEvent e) \<and> \<not> unbounded (element pg)"
  proof -
    from that element_event_returns [of "element pg" api ev]
    obtain s' where "element_event api ev (element pg) = Some s'" by blast
    with that show ?thesis by (cases ev) auto
  qed
next
  assume "KEYS_MAP c = Some k"
  then show "\<exists>pg'. dispatch api (KeyEvent (Keydown c)) pg = Some pg'
           \<and> is_key_pressed (kbd pg') (Some k)"
    and "\<exists>pg'. dispatch api (KeyEvent (Keyup c)) pg = Some pg'
           \<and> \<not> is_key_pressed (kbd pg') (Some k)"
    by (simp_all add: is_key_pressed_down is_key_pressed_up)
qed

theorem key_events_stay_in_keyboard_witness:
  "KEYS_MAP 49 = Some 1
   \<and> (\<exists>pg'. dispatch demo_emulator (KeyEvent (Keydown 49)) demo_page = Some pg'
         \<and> is_key_pressed (kbd pg') (Some 1) \<and> element pg' = element demo_page)
   \<and> (\<exists>pg'. dispatch demo_emulator (KeyEvent (Keyup 49)) demo_page = Some pg'
         \<and> \<not> is_key_pressed (kbd pg') (Some 1))
   \<and> dispatch demo_emulator (FileSelected None) demo_page =
       Some (demo_page\<lparr>element :=
               state_of (uploadProgram demo_emulator None (element demo_page))\<rparr>)
   \<and> kbd (demo_page\<lparr>element :=
               state_of (uploadProgram demo_emulator None (element demo_page))\<rparr>) =
       kbd demo_page
   \<and> \<not> unbounded (element demo_page)
   \<and> (\<exists>pg'. dispatch demo_emulator StartClick demo_page = Some pg' \<and> kbd pg' = kbd demo_page)"
proof -
  let ?p = "demo_page\<lparr>element :=
               state_of (uploadProgram demo_emulator None (element demo_page))\<rparr>"
  have k: "KEYS_MAP 49 = Some 1" by (simp add: KEYS_MAP_def)
  have n: "\<forall>e. FileSelected None \<noteq> KeyEvent e" by simp
  have n': "\<forall>e. StartClick \<noteq> KeyEvent e" by simp
  have d: "dispatch demo_emulator (FileSelected None) demo_page = Some ?p" by simp
  have "ticksPerFrame (element demo_page) = Num 10"
    unfolding demo_page_def by (simp add: demo_ticks)
  then have b: "\<not> unbounded (element demo_page)" by (simp add: unbounded_def)
  note t = key_events_stay_in_keyboard
    [of demo_emulator "Keydown 49" demo_page 49 1 "FileSelected None" ?p]
  note t' = key_events_stay_in_keyboard
    [of demo_emulator "Keydown 49" demo_page 49 1 StartClick ?p]
  from t k have down: "\<exists>pg'. dispatch demo_emulator (KeyEvent (Keydown 49)) demo_page = Some pg'
         \<and> is_key_pressed (kbd pg') (Some 1)"
    by blast
  from t have "\<exists>pg'. dispatch demo_emulator (KeyEvent (Keydown 49)) demo_page = Some pg'
         \<and> element pg' = element demo_page"
    by blast
  with down have down': "\<exists>pg'. dispatch demo_emulator (KeyEvent (Keydown 49)) demo_page = Some pg'
         \<and> is_key_pressed (kbd pg') (Some 1) \<and> element pg' = element demo_page"
    by auto
  from t k have up: "\<exists>pg'. dispatch demo_emulator (KeyEvent (Keyup 49)) demo_page = Some pg'
         \<and> \<not> is_key_pressed (kbd pg') (Some 1)"
    by blast
  from t n d have f: "kbd ?p = kbd demo_page" by blast
  from t' n' b
  have c: "\<exists>pg'. dispatch demo_emulator StartClick demo_page = Some pg' \<and> kbd pg' = kbd demo_page"
    by blast
  from k down' up d f b c show ?thesis by blast
qed

text \<open>
  Claim C3 as stated fails: after a keydown of the key 1 (key code 49) on the stand-in page
  the adapter reports the key as pressed, and the only call ever made on the interpreter is
  its creation; no \<^verbatim>\<open>set_key\<close> call was made.
\<close>

theorem set_key_counterexample:
  "dispatch demo_emulator (KeyEvent (Keydown 49)) demo_page =
     Some (demo_page\<lparr>kbd := handle_keydown 49 (kbd demo_page)\<rparr>)
   \<and> calls (element (demo_page\<lparr>kbd := handle_keydown 49 (kbd demo_page)\<rparr>)) = [New]
   \<and> SetKey 1 True \<notin> set (calls (element (demo_page\<lparr>kbd := handle_keydown 49 (kbd demo_page)\<rparr>)))
   \<and> is_key_pressed (kbd (demo_page\<lparr>kbd := handle_keydown 49 (kbd demo_page)\<rparr>)) (Some 1)"
  by (simp add: demo_page_def chip8_new_def is_key_pressed_down KEYS_MAP_def)

section \<open>The framebuffer view\<close>

lemma typed_get_view:
  "gfx_view api e = Inr gfx \<Longrightarrow> i < WIDTH * HEIGHT \<Longrightarrow>
   typed_get gfx i = Some (memory_buffer api e ! (emu_gfx api e + i))"
  by (auto simp: gfx_view_def Uint8Array_def typed_get_def split: if_splits)

lemma row_major_div: "col < (64::nat) \<Longrightarrow> (row * 64 + col) div 64 = row"
  by simp

lemma row_major_mod: "col < (64::nat) \<Longrightarrow> (row * 64 + col) mod 64 = col"
  by simp

lemma getIndex_div_mod:
  "col < WIDTH \<Longrightarrow> getIndex row col div WIDTH = row \<and> getIndex row col mod WIDTH = col"
  unfolding getIndex_def WIDTH_def using row_major_div row_major_mod by blast

lemma getIndex_inj:
  assumes "col < WIDTH" "col' < WIDTH" "getIndex row col = getIndex row' col'"
  shows "row = row' \<and> col = col'"
proof -
  have "row = getIndex row col div WIDTH" "col = getIndex row col mod WIDTH"
    using getIndex_div_mod [OF assms(1), of row] by simp_all
  moreover have "row' = getIndex row' col' div WIDTH" "col' = getIndex row' col' mod WIDTH"
    using getIndex_div_mod [OF assms(2), of row'] by simp_all
  ultimately show ?thesis
    using assms(3) by metis
qed

lemma getIndex_surj:
  assumes "i < WIDTH * HEIGHT"
  shows "i div WIDTH < HEIGHT \<and> i mod WIDTH < WIDTH \<and> getIndex (i div WIDTH) (i mod WIDTH) = i"
proof -
  have "i div WIDTH < HEIGHT"
    using assms by (simp add: WIDTH_def HEIGHT_def div_less_iff_less_mult)
  moreover have "i mod WIDTH < WIDTH" by (simp add: WIDTH_def)
  moreover have "getIndex (i div WIDTH) (i mod WIDTH) = i" by (simp add: getIndex_def)
  ultimately show ?thesis by blast
qed

lemma fb_ok_CLS: "fb_ok CLS"
  by (simp add: fb_ok_def CLS_def list_all_iff)

lemma sprite_bit_01: "sprite_bit byte j = 0 \<or> sprite_bit byte j = 1"
  by (simp add: sprite_bit_def)

lemma xor_01: "(a = 0 \<or> a = 1) \<Longrightarrow> (b = 0 \<or> b = 1) \<Longrightarrow> a XOR b = 0 \<or> a XOR b = (1 :: 8 word)"
  by auto

lemma fb_ok_xor_pixel:
  assumes "fb_ok (fst st)" "b = 0 \<or> b = 1"
  shows "fb_ok (fst (xor_pixel row col b st))"
proof -
  let ?i = "getIndex (row mod HEIGHT) (col mod WIDTH)"
  have "?i < WIDTH * HEIGHT"
    by (rule getIndex_less) (simp_all add: HEIGHT_def WIDTH_def)
  with assms(1) have i: "?i < length (fst st)" by (simp add: fb_ok_def)
  with assms(1) have "fst st ! ?i = 0 \<or> fst st ! ?i = 1"
    by (auto simp: fb_ok_def list_all_iff)
  from xor_01 [OF this assms(2)] assms(1) show ?thesis
    by (auto simp: xor_pixel_def Let_def fb_ok_def list_all_iff dest!: set_update_subset_insert [THEN subsetD])
qed

lemma fb_ok_fold_pixels:
  "fb_ok (fst st) \<Longrightarrow>
   fb_ok (fst (fold (\<lambda>j. xor_pixel row (vx + j) (sprite_bit byte j)) js st))"
  by (induction js arbitrary: st) (simp_all add: fb_ok_xor_pixel sprite_bit_01)

lemma fb_ok_DRW_row: "fb_ok (fst st) \<Longrightarrow> fb_ok (fst (DRW_row vx row byte st))"
  by (simp add: DRW_row_def fb_ok_fold_pixels)

lemma fb_ok_fold_rows:
  "fb_ok (fst st) \<Longrightarrow>
   fb_ok (fst (fold (\<lambda>(r, byte). DRW_row vx (vy + r) byte) rows st))"
proof (induction rows arbitrary: st)
  case Nil
  then show ?case by simp
next
  case (Cons p rows)
  obtain r byte where p: "p = (r, byte)" by (cases p)
  from Cons.prems have "fb_ok (fst (DRW_row vx (vy + r) byte st))"
    by (rule fb_ok_DRW_row)
  from Cons.IH [OF this] show ?case by (simp add: p)
qed

lemma fb_ok_DRW: "fb_ok fb \<Longrightarrow> fb_ok (fst (DRW fb vx vy sprite))"
  by (simp add: DRW_def fb_ok_fold_rows)


text \<open>
  The modelled \<^verbatim>\<open>DRW\<close> at work: a sprite row drawn at column 63 wraps to column 0,
  and drawing it a second time restores the cleared grid and reports the collision.
\<close>

lemma sprite_bits_C0:
  "sprite_bit 0xC0 0 = 1" "sprite_bit 0xC0 (Suc 0) = 1" "sprite_bit 0xC0 2 = 0"
  "sprite_bit 0xC0 3 = 0" "sprite_bit 0xC0 4 = 0" "sprite_bit 0xC0 5 = 0"
  "sprite_bit 0xC0 6 = 0" "sprite_bit 0xC0 7 = 0"
  by code_simp+

lemma upt8: "[0..<8] = [0, Suc 0, 2, 3, 4, 5, 6, 7]"
  by (simp add: upt_conv_Cons)

lemma replicate_update_same: "(replicate n x)[i := x] = replicate n x"
  by (cases "i < n") (auto simp: list_eq_iff_nth_eq nth_list_update)

lemma DRW_example:
  "DRW CLS 63 0 [0xC0] = (CLS[63 := 1, 0 := 1], False)"
  by (simp add: DRW_def DRW_row_def upt8 xor_pixel_def Let_def sprite_bits_C0 getIndex_def
      WIDTH_def HEIGHT_def CLS_def replicate_update_same)

lemma DRW_twice:
  "DRW (fst (DRW CLS 63 0 [0xC0])) 63 0 [0xC0] = (CLS, True)"
  by (simp add: DRW_example)
     (simp add: DRW_def DRW_row_def upt8 xor_pixel_def Let_def sprite_bits_C0 getIndex_def
      WIDTH_def HEIGHT_def CLS_def list_update_swap replicate_update_same)

lemma fb_ok_foldl: "fb_ok fb \<Longrightarrow> fb_ok (foldl fb_step fb history)"
proof (induction history arbitrary: fb)
  case Nil
  then show ?case by simp
next
  case (Cons op history)
  from Cons.prems have "fb_ok (fb_step fb op)"
    by (cases op) (simp_all add: fb_ok_CLS fb_ok_DRW)
  from Cons.IH [OF this] show ?case by simp
qed

lemma fb_ok_framebuffer_after: "fb_ok (framebuffer_after history)"
  unfolding framebuffer_after_def by (rule fb_ok_foldl [OF fb_ok_CLS])

lemma fb_ok_nth: "fb_ok fb \<Longrightarrow> i < 2048 \<Longrightarrow> fb ! i = 0 \<or> fb ! i = 1"
  by (auto simp: fb_ok_def list_all_iff WIDTH_def HEIGHT_def)

lemma fb_ok_length: "fb_ok fb \<Longrightarrow> length fb = 2048"
  by (simp add: fb_ok_def WIDTH_def HEIGHT_def)

text \<open>
  Claim C6. The view that \<^verbatim>\<open>renderGfx\<close> takes has exactly 2048 = 64 * 32 bytes, and
  the renderer reads the cell \<open>(row, col)\<close> at index \<open>row * 64 + col\<close> of it, that is at
  that offset from the address \<^verbatim>\<open>gfx()\<close> returned; the indexing is one-to-one between
  the cells and the indices below 2048. When the bytes of the view are the framebuffer
  that the interpreter holds, as the specification describes it after any history of
  clears and draws, every cell that the renderer reads is 0 or 1.
\<close>

theorem framebuffer_view_layout:
  "(gfx_view api e = Inr gfx \<longrightarrow>
      length gfx = 2048
      \<and> (row < HEIGHT \<and> col < WIDTH \<longrightarrow>
           typed_get gfx (getIndex row col) =
             Some (memory_buffer api e ! (emu_gfx api e + (row * 64 + col))))
      \<and> (gfx = framebuffer_after history \<and> row < HEIGHT \<and> col < WIDTH \<longrightarrow>
           typed_get gfx (getIndex row col) = Some 0
           \<or> typed_get gfx (getIndex row col) = Some 1))
   \<and> WIDTH = 64 \<and> HEIGHT = 32
   \<and> (row < HEIGHT \<and> col < WIDTH \<longrightarrow>
        getIndex row col = row * 64 + col \<and> getIndex row col < 2048)
   \<and> (col < WIDTH \<and> col' < WIDTH \<and> getIndex row col = getIndex row' col' \<longrightarrow>
        row = row' \<and> col = col')
   \<and> (i < 2048 \<longrightarrow>
        i div WIDTH < HEIGHT \<and> i mod WIDTH < WIDTH \<and> getIndex (i div WIDTH) (i mod WIDTH) = i)
   \<and> length (framebuffer_after history) = 2048
   \<and> (i < 2048 \<longrightarrow> framebuffer_after history ! i = 0 \<or> framebuffer_after history ! i = 1)"
proof (intro conjI impI)
  assume v: "gfx_view api e = Inr gfx"
  from gfx_view_length [OF v] show "length gfx = 2048" by (simp add: WIDTH_def HEIGHT_def)
  {
    assume "row < HEIGHT \<and> col < WIDTH"
    then have "getIndex row col < WIDTH * HEIGHT" by (simp add: getIndex_less)
    from typed_get_view [OF v this]
    show "typed_get gfx (getIndex row col) =
        Some (memory_buffer api e ! (emu_gfx api e + (row * 64 + col)))"
      by (simp add: getIndex_def WIDTH_def)
  }
  {
    assume a: "gfx = framebuffer_after history \<and> row < HEIGHT \<and> col < WIDTH"
    then have i: "getIndex row col < 2048"
      using getIndex_less [of row col] by (simp add: WIDTH_def HEIGHT_def)
    from a have ok: "fb_ok gfx" by (simp add: fb_ok_framebuffer_after)
    from fb_ok_nth [OF ok i] fb_ok_length [OF ok] i
    show "typed_get gfx (getIndex row col) = Some 0
        \<or> typed_get gfx (getIndex row col) = Some 1"
      by (simp add: typed_get_def)
  }
next
  show "WIDTH = 64" by (simp add: WIDTH_def)
  show "HEIGHT = 32" by (simp add: HEIGHT_def)
  show "length (framebuffer_after history) = 2048"
    by (rule fb_ok_length [OF fb_ok_framebuffer_after])
next
  assume "row < HEIGHT \<and> col < WIDTH"
  then have "getIndex row col < WIDTH * HEIGHT" by (simp add: getIndex_less)
  then show "getIndex row col < 2048" by (simp add: WIDTH_def HEIGHT_def)
  show "getIndex row col = row * 64 + col" by (simp add: getIndex_def WIDTH_def)
next
  assume a: "col < WIDTH \<and> col' < WIDTH \<and> getIndex row col = getIndex row' col'"
  then have "row = row' \<and> col = col'" using getIndex_inj [of col col' row row'] by blast
  then show "row = row'" "col = col'" by simp_all
next
  assume "i < 2048"
  then have "i < WIDTH * HEIGHT" by (simp add: WIDTH_def HEIGHT_def)
  from getIndex_surj [OF this]
  show "i div WIDTH < HEIGHT" "i mod WIDTH < WIDTH" "getIndex (i div WIDTH) (i mod WIDTH) = i"
    by simp_all
next
  assume "i < 2048"
  then show "framebuffer_after history ! i = 0 \<or> framebuffer_after history ! i = 1"
    by (rule fb_ok_nth [OF fb_ok_framebuffer_after])
qed

lemma framebuffer_after_example:
  "framebuffer_after [FbDraw 63 0 [0xC0]] = (replicate 2048 0)[63 := 1, 0 := 1]"
  unfolding framebuffer_after_def
  by (simp add: DRW_example) (simp add: CLS_def WIDTH_def HEIGHT_def)

theorem framebuffer_view_layout_witness:
  "gfx_view demo_emulator ((replicate 2048 0)[63 := 1, 0 := 1]) =
     Inr ((replicate 2048 0)[63 := 1, 0 := 1])
   \<and> (replicate 2048 0)[63 := 1, 0 := 1] = framebuffer_after [FbDraw 63 0 [0xC0]]
   \<and> (0::nat) < HEIGHT \<and> (63::nat) < WIDTH \<and> (63::nat) < 2048
   \<and> getIndex 0 63 = 63
   \<and> typed_get ((replicate 2048 0)[63 := 1, 0 := 1]) (getIndex 0 63) = Some 1
   \<and> (typed_get ((replicate 2048 0)[63 := 1, 0 := 1]) (getIndex 0 63) = Some 0
        \<or> typed_get ((replicate 2048 0)[63 := 1, 0 := 1]) (getIndex 0 63) = Some 1)
   \<and> getIndex (63 div WIDTH) (63 mod WIDTH) = 63
   \<and> (framebuffer_after [FbDraw 63 0 [0xC0]] ! 63 = 0
        \<or> framebuffer_after [FbDraw 63 0 [0xC0]] ! 63 = 1)"
proof -
  let ?m = "(replicate 2048 0)[63 := 1, 0 := 1] :: 8 word list"
  let ?h = "[FbDraw 63 0 [0xC0]]"
  have v: "gfx_view demo_emulator ?m = Inr ?m"
    by (simp add: gfx_view_def Uint8Array_def demo_emulator_def WIDTH_def HEIGHT_def)
  have fa: "?m = framebuffer_after ?h" by (rule framebuffer_after_example [symmetric])
  have b: "(0::nat) < HEIGHT" "(63::nat) < WIDTH" "(63::nat) < 2048"
    by (simp_all add: HEIGHT_def WIDTH_def)
  have m: "memory_buffer demo_emulator ?m ! (emu_gfx demo_emulator ?m + (0 * 64 + 63)) = 1"
    by (simp add: demo_emulator_def)
  note t = framebuffer_view_layout [of demo_emulator ?m ?m 0 63 ?h 63 0 63]
  from t v b have "typed_get ?m (getIndex 0 63) =
      Some (memory_buffer demo_emulator ?m ! (emu_gfx demo_emulator ?m + (0 * 64 + 63)))"
    by blast
  then have g: "typed_get ?m (getIndex 0 63) = Some 1" unfolding m .
  from t v fa b have o: "typed_get ?m (getIndex 0 63) = Some 0
      \<or> typed_get ?m (getIndex 0 63) = Some 1"
    by blast
  have i: "getIndex 0 63 = 63" by (simp add: getIndex_def WIDTH_def)
  from t b(3) have s: "getIndex (63 div WIDTH) (63 mod WIDTH) = 63" by blast
  from t b(3) have f: "framebuffer_after ?h ! 63 = 0 \<or> framebuffer_after ?h ! 63 = 1"
    by blast
  from v fa b i g o s f show ?thesis by blast
qed

end
